theory Spec2Isabelle
  imports Main
begin

section \<open>The ARTEMIS service worker (sw.js)\<close>

text \<open>
  The worker reacts to three host events: install, activate and fetch. Everything it does
  goes through host interfaces: the network (\<open>fetch\<close>), the cache storage (\<open>caches\<close>),
  Response objects and the URL parser. The host is modelled by an explicit world that the
  handlers pass along, and each handler is the JavaScript handler written as a function
  from the world before the event to the settled result and the world after all the
  asynchronous work started by the handler has settled. The calls to \<open>self.skipWaiting()\<close>
  and \<open>self.clients.claim()\<close> change neither cache nor network and are left out.
\<close>

subsection \<open>Configuration constants\<close>

definition CACHE_VERSION :: string where
  "CACHE_VERSION = ''v1''"

text \<open>
  The two partition names are template strings over the version tag. They are functions of
  the tag here, so that a later version of the worker can be talked about; the shipped
  worker is the instance at \<^term>\<open>CACHE_VERSION\<close>.
\<close>

definition STATIC_CACHE :: "string \<Rightarrow> string" where
  "STATIC_CACHE ver = ''artemis-static-'' @ ver"

definition CDN_CACHE :: "string \<Rightarrow> string" where
  "CDN_CACHE ver = ''artemis-cdn-'' @ ver"

definition ALL_CACHES :: "string \<Rightarrow> string list" where
  "ALL_CACHES ver = [STATIC_CACHE ver, CDN_CACHE ver]"

definition STATIC_ASSETS :: "string list" where
  "STATIC_ASSETS = [''./artemis.html'', ''./artemis_ja.html'']"

definition CDN_PREFETCH :: "string list" where
  "CDN_PREFETCH =
     [''https://cdn.plot.ly/plotly-2.27.0.min.js'',
      ''https://d3js.org/d3.v7.min.js'',
      ''https://cdn.jsdelivr.net/npm/d3-cloud@1.2.7/build/d3.layout.cloud.min.js'',
      ''https://cdn.jsdelivr.net/npm/d3-sankey@0.12.3/dist/d3-sankey.min.js'',
      ''https://cdn.jsdelivr.net/npm/papaparse@5.4.1/papaparse.min.js'',
      ''https://cdn.jsdelivr.net/npm/xlsx@0.18.5/dist/xlsx.full.min.js'']"

subsection \<open>Requests, URLs and responses\<close>

text \<open>
  A request: \<open>request.method\<close> and \<open>request.url\<close>, which the worker reads, and the
  request headers (names in lower case), which the cache compares when a stored response
  has a Vary header.
\<close>

type_synonym header_list = "(string \<times> string) list"

record request =
  req_method :: string
  url :: string
  headers :: header_list

record URL =
  hostname :: string
  pathname :: string

text \<open>
  \<open>new URL(request.url)\<close>: the host's parser. The URL of a request is absolute; the
  parser is written for the form \<open>scheme://host[:port][/path][?query][#fragment]\<close> with
  a lower-case host and no user-info part. The worker reads only \<open>hostname\<close> and
  \<open>pathname\<close>.
\<close>

fun after_scheme :: "string \<Rightarrow> string" where
  "after_scheme (a # b # c # rest) =
     (if a = CHR '':'' \<and> b = CHR ''/'' \<and> c = CHR ''/'' then rest
      else after_scheme (b # c # rest))"
| "after_scheme _ = []"

definition path_start :: "char \<Rightarrow> bool" where
  "path_start c = (c = CHR ''/'' \<or> c = CHR ''?'' \<or> c = CHR ''#'')"

definition path_end :: "char \<Rightarrow> bool" where
  "path_end c = (c = CHR ''?'' \<or> c = CHR ''#'')"

definition new_URL :: "string \<Rightarrow> URL" where
  "new_URL u =
     (let rest = after_scheme u;
          p = takeWhile (\<lambda>c. \<not> path_end c) (dropWhile (\<lambda>c. \<not> path_start c) rest)
      in \<lparr> hostname = takeWhile (\<lambda>c. \<not> path_start c \<and> c \<noteq> CHR '':'') rest,
           pathname = (if p = [] then ''/'' else p) \<rparr>)"

text \<open>\<open>String.prototype.endsWith\<close>.\<close>

definition endsWith :: "string \<Rightarrow> string \<Rightarrow> bool" where
  "endsWith s t = (length t \<le> length s \<and> drop (length s - length t) s = t)"

text \<open>
  The URL a cache files a request under: a relative URL (the worker lists its own pages
  as \<open>./name\<close>) is resolved against the directory of the worker's location, and the
  fragment is dropped.
\<close>

definition drop_fragment :: "string \<Rightarrow> string" where
  "drop_fragment u = takeWhile (\<lambda>c. c \<noteq> CHR ''#'') u"

definition resolve :: "string \<Rightarrow> string \<Rightarrow> string" where
  "resolve b u =
     (if after_scheme u \<noteq> [] then u
      else takeWhile (\<lambda>c. \<not> path_end c) b @ (if take 2 u = ''./'' then drop 2 u else u))"

text \<open>
  What a cache keeps of a response: the status, the header names listed in its Vary
  header, and the body (\<open>None\<close> for a response with a null body). A live Response object
  adds the flag of a body stream that can be read once.
\<close>

record snapshot =
  status :: nat
  vary :: "string list"
  body :: "string option"

record response =
  snap :: snapshot
  bodyUsed :: bool

text \<open>\<open>Response.ok\<close>: the status is in the range 200 to 299.\<close>

definition ok :: "snapshot \<Rightarrow> bool" where
  "ok s = (200 \<le> status s \<and> status s \<le> 299)"

subsection \<open>The host\<close>

text \<open>A settled promise.\<close>

datatype 'a settled = Fulfilled 'a | Rejected

text \<open>
  The calls a handler makes on the host, in the order they are issued. A cache handle is
  the name it was opened under; a Response object is its index in the object store.
\<close>

datatype host_call =
    Fetch string
  | Clone nat
  | Open string
  | Put string string nat
  | Match string string
  | MatchAll string
  | Keys
  | Delete string

text \<open>
  A cache is the list of its request/response pairs in the order they were stored: the
  URL the request is filed under, the headers the request was sent with, and the
  response.
\<close>

record item =
  item_key :: string
  item_sent :: header_list
  item_resp :: snapshot

type_synonym partitions = "(string \<times> item list) list"

text \<open>
  The world: the cache storage (the partitions by name, in the order they were created),
  the Response objects alive, the calls made so far, and the directory of the worker's
  location.
\<close>

record world =
  storage :: partitions
  objs :: "response list"
  trace :: "host_call list"
  base :: string

definition request_key :: "world \<Rightarrow> string \<Rightarrow> string" where
  "request_key w u = drop_fragment (resolve (base w) u)"

text \<open>
  What the worker does not control: \<open>net\<close> gives the snapshot that \<open>fetch\<close>, called with
  this URL, resolves with, or \<open>None\<close> when the fetch promise rejects; \<open>quota_ok\<close> says
  whether the host has room for a store.
\<close>

record env =
  net :: "string \<Rightarrow> snapshot option"
  quota_ok :: "string \<Rightarrow> string \<Rightarrow> snapshot \<Rightarrow> bool"

text \<open>
  Whether the host accepts a store: \<open>cache.put\<close> refuses a response with status 206 and
  one whose Vary header lists \<open>*\<close>, and a store for which there is no room.
\<close>

definition put_ok :: "env \<Rightarrow> string \<Rightarrow> string \<Rightarrow> snapshot \<Rightarrow> bool" where
  "put_ok e name u s =
     (status s \<noteq> 206 \<and> \<not> List.member (vary s) ''*'' \<and> quota_ok e name u s)"

definition issue :: "host_call \<Rightarrow> world \<Rightarrow> world" where
  "issue c w = w\<lparr>trace := trace w @ [c]\<rparr>"

definition alloc :: "response \<Rightarrow> world \<Rightarrow> nat \<times> world" where
  "alloc r w = (length (objs w), w\<lparr>objs := objs w @ [r]\<rparr>)"

definition deref :: "world \<Rightarrow> nat \<Rightarrow> response option" where
  "deref w r = (if r < length (objs w) then Some (objs w ! r) else None)"

text \<open>
  A stored pair answers a request when it is filed under the request's URL and, for each
  header name in the Vary header of the stored response, the request carries the value
  the stored request was sent with.
\<close>

definition agrees :: "header_list \<Rightarrow> item \<Rightarrow> bool" where
  "agrees hs it =
     list_all (\<lambda>f. f \<noteq> ''*'' \<and> map_of hs f = map_of (item_sent it) f) (vary (item_resp it))"

definition matches :: "string \<Rightarrow> header_list \<Rightarrow> item \<Rightarrow> bool" where
  "matches k hs it = (item_key it = k \<and> agrees hs it)"

text \<open>
  What a lookup in the partition of a name finds for a request: the response of the first
  pair that answers it.
\<close>

definition probe :: "partitions \<Rightarrow> string \<Rightarrow> string \<Rightarrow> header_list \<Rightarrow> snapshot option" where
  "probe cs name k hs =
     (case map_of cs name of
        None \<Rightarrow> None
      | Some c \<Rightarrow> (case find (matches k hs) c of None \<Rightarrow> None | Some it \<Rightarrow> Some (item_resp it)))"

text \<open>
  The entry of a URL in the partition of a name: the response stored last under the URL
  the cache files it under, if there is one.
\<close>

definition latest :: "string \<Rightarrow> item list \<Rightarrow> snapshot option" where
  "latest k c =
     (case filter (\<lambda>it. item_key it = k) (rev c) of [] \<Rightarrow> None | i # its \<Rightarrow> Some (item_resp i))"

definition lookup :: "partitions \<Rightarrow> string \<Rightarrow> string \<Rightarrow> snapshot option" where
  "lookup cs name k = (case map_of cs name of None \<Rightarrow> None | Some c \<Rightarrow> latest k c)"

definition entry :: "world \<Rightarrow> string \<Rightarrow> string \<Rightarrow> snapshot option" where
  "entry w name u = lookup (storage w) name (request_key w u)"

text \<open>
  Writing a pair into the partition of a name: the pairs that answer the request are
  removed and the new pair is added at the end.
\<close>

definition put_item :: "string \<Rightarrow> header_list \<Rightarrow> snapshot \<Rightarrow> item list \<Rightarrow> item list" where
  "put_item k hs s c =
     filter (\<lambda>it. \<not> matches k hs it) c @ [\<lparr> item_key = k, item_sent = hs, item_resp = s \<rparr>]"

definition store :: "string \<Rightarrow> string \<Rightarrow> header_list \<Rightarrow> snapshot \<Rightarrow> partitions \<Rightarrow> partitions" where
  "store name k hs s cs = map (\<lambda>(n, c). if n = name then (n, put_item k hs s c) else (n, c)) cs"

text \<open>\<open>fetch(u)\<close>: a fresh Response object, or a rejection.\<close>

definition host_fetch :: "env \<Rightarrow> string \<Rightarrow> world \<Rightarrow> nat settled \<times> world" where
  "host_fetch e u w =
     (let w1 = issue (Fetch u) w in
      case net e u of
        None \<Rightarrow> (Rejected, w1)
      | Some s \<Rightarrow> (case alloc \<lparr> snap = s, bodyUsed = False \<rparr> w1 of (r, w2) \<Rightarrow> (Fulfilled r, w2)))"

text \<open>\<open>response.clone()\<close>: throws when the body has been read already.\<close>

definition response_clone :: "nat \<Rightarrow> world \<Rightarrow> nat settled \<times> world" where
  "response_clone r w =
     (let w1 = issue (Clone r) w in
      case deref w1 r of
        None \<Rightarrow> (Rejected, w1)
      | Some x \<Rightarrow>
          if bodyUsed x then (Rejected, w1)
          else (case alloc x w1 of (c, w2) \<Rightarrow> (Fulfilled c, w2)))"

text \<open>
  \<open>caches.open(name)\<close>: creates the partition, empty, if there is none of that name.
  Opening, listing and deleting partitions are taken to succeed.
\<close>

definition caches_open :: "string \<Rightarrow> world \<Rightarrow> world" where
  "caches_open name w =
     (let w1 = issue (Open name) w in
      if List.member (map fst (storage w1)) name then w1
      else w1\<lparr>storage := storage w1 @ [(name, [])]\<rparr>)"

text \<open>
  \<open>cache.put(request, r)\<close>, for a request with URL \<open>u\<close> and headers \<open>hs\<close>: rejects when
  the body of \<open>r\<close> was read before or the host refuses the store; otherwise it reads the
  body of \<open>r\<close>, which is used up afterwards unless it is null, and writes the pair.
\<close>

definition cache_put ::
  "env \<Rightarrow> string \<Rightarrow> string \<Rightarrow> header_list \<Rightarrow> nat \<Rightarrow> world \<Rightarrow> unit settled \<times> world" where
  "cache_put e name u hs r w =
     (let w1 = issue (Put name u r) w in
      case deref w1 r of
        None \<Rightarrow> (Rejected, w1)
      | Some x \<Rightarrow>
          if bodyUsed x \<or> \<not> put_ok e name u (snap x) then (Rejected, w1)
          else (Fulfilled (),
                w1\<lparr>storage := store name (request_key w1 u) hs (snap x) (storage w1),
                   objs := (objs w1)[r := x\<lparr>bodyUsed := (body (snap x) \<noteq> None)\<rparr>]\<rparr>))"

text \<open>
  \<open>cache.match(request)\<close>: a fresh Response object over the response of the first stored
  pair that answers the request, or undefined.
\<close>

definition cache_match :: "string \<Rightarrow> string \<Rightarrow> header_list \<Rightarrow> world \<Rightarrow> nat option \<times> world" where
  "cache_match name u hs w =
     (let w1 = issue (Match name u) w in
      case probe (storage w1) name (request_key w1 u) hs of
        None \<Rightarrow> (None, w1)
      | Some s \<Rightarrow> (case alloc \<lparr> snap = s, bodyUsed = False \<rparr> w1 of (r, w2) \<Rightarrow> (Some r, w2)))"

text \<open>
  \<open>caches.match(request)\<close>, on the storage as a whole: the partitions are searched in the
  order of their creation and the first pair that answers the request is the answer.
\<close>

fun first_match :: "partitions \<Rightarrow> string \<Rightarrow> header_list \<Rightarrow> snapshot option" where
  "first_match [] k hs = None"
| "first_match ((n, c) # cs) k hs =
     (case find (matches k hs) c of Some it \<Rightarrow> Some (item_resp it) | None \<Rightarrow> first_match cs k hs)"

definition caches_match :: "string \<Rightarrow> header_list \<Rightarrow> world \<Rightarrow> nat option \<times> world" where
  "caches_match u hs w =
     (let w1 = issue (MatchAll u) w in
      case first_match (storage w1) (request_key w1 u) hs of
        None \<Rightarrow> (None, w1)
      | Some s \<Rightarrow> (case alloc \<lparr> snap = s, bodyUsed = False \<rparr> w1 of (r, w2) \<Rightarrow> (Some r, w2)))"

text \<open>\<open>caches.keys()\<close> and \<open>caches.delete(name)\<close>.\<close>

definition caches_keys :: "world \<Rightarrow> string list \<times> world" where
  "caches_keys w = (map fst (storage w), issue Keys w)"

definition caches_delete :: "string \<Rightarrow> world \<Rightarrow> bool settled \<times> world" where
  "caches_delete name w =
     (let w1 = issue (Delete name) w in
      (Fulfilled (List.member (map fst (storage w1)) name),
       w1\<lparr>storage := filter (\<lambda>(n, c). n \<noteq> name) (storage w1)\<rparr>))"

text \<open>
  \<open>Promise.all\<close> and \<open>Promise.allSettled\<close> over tasks that are already running: every
  task runs to its end whatever the others do; \<open>Promise.all\<close> rejects when one of them
  rejects, \<open>Promise.allSettled\<close> never rejects.
\<close>

fun promise_all :: "(world \<Rightarrow> 'a settled \<times> world) list \<Rightarrow> world \<Rightarrow> 'a list settled \<times> world" where
  "promise_all [] w = (Fulfilled [], w)"
| "promise_all (t # ts) w =
     (case t w of (r, w1) \<Rightarrow>
        (case promise_all ts w1 of (rs, w2) \<Rightarrow>
           ((case r of
               Rejected \<Rightarrow> Rejected
             | Fulfilled x \<Rightarrow> (case rs of Rejected \<Rightarrow> Rejected | Fulfilled xs \<Rightarrow> Fulfilled (x # xs))),
            w2)))"

fun all_settled :: "(world \<Rightarrow> 'a settled \<times> world) list \<Rightarrow> world \<Rightarrow> 'a settled list settled \<times> world" where
  "all_settled [] w = (Fulfilled [], w)"
| "all_settled (t # ts) w =
     (case t w of (r, w1) \<Rightarrow>
        (case all_settled ts w1 of (rs, w2) \<Rightarrow>
           ((case rs of Rejected \<Rightarrow> Rejected | Fulfilled xs \<Rightarrow> Fulfilled (r # xs)), w2)))"

subsection \<open>Install: pre-populate the caches\<close>

text \<open>
  One listed URL: \<open>fetch(url).then(r => r.ok ? cache.put(url, r) : null).catch(() => null)\<close>.
  The catch turns a rejection of the fetch or of the store, or an exception in the
  callback, into a fulfilled promise. The third-party list is fetched with
  \<open>{ mode: 'cors' }\<close>, for which a refused cross-origin read is a rejection of the fetch;
  the handling is the same. The request that \<open>cache.put\<close> makes of the listed URL has no
  headers of its own.
\<close>

definition prefetch :: "env \<Rightarrow> string \<Rightarrow> string \<Rightarrow> world \<Rightarrow> unit settled \<times> world" where
  "prefetch e cache u w =
     (case host_fetch e u w of
        (Rejected, w1) \<Rightarrow> (Fulfilled (), w1)
      | (Fulfilled r, w1) \<Rightarrow>
          (case deref w1 r of
             None \<Rightarrow> (Fulfilled (), w1)
           | Some x \<Rightarrow>
               if ok (snap x) then
                 (case cache_put e cache u [] r w1 of
                    (Rejected, w2) \<Rightarrow> (Fulfilled (), w2)
                  | (Fulfilled v, w2) \<Rightarrow> (Fulfilled (), w2))
               else (Fulfilled (), w1)))"

text \<open>
  One list: the partition is opened and the URLs are fetched side by side under
  \<open>Promise.allSettled\<close>. They are run here in the order of the list; each writes under its
  own key only.
\<close>

definition prefetch_list :: "env \<Rightarrow> string \<Rightarrow> string list \<Rightarrow> world \<Rightarrow> unit settled \<times> world" where
  "prefetch_list e name urls w =
     (case all_settled (map (prefetch e name) urls) (caches_open name w) of
        (Rejected, w1) \<Rightarrow> (Rejected, w1)
      | (Fulfilled rs, w1) \<Rightarrow> (Fulfilled (), w1))"

definition install :: "string \<Rightarrow> env \<Rightarrow> world \<Rightarrow> unit list settled \<times> world" where
  "install ver e w =
     promise_all [prefetch_list e (STATIC_CACHE ver) STATIC_ASSETS,
                  prefetch_list e (CDN_CACHE ver) CDN_PREFETCH] w"

subsection \<open>Activate: clean up old caches\<close>

definition activate :: "string \<Rightarrow> world \<Rightarrow> bool list settled \<times> world" where
  "activate ver w =
     (case caches_keys w of (names, w1) \<Rightarrow>
        promise_all (map caches_delete (filter (\<lambda>n. \<not> List.member (ALL_CACHES ver) n) names)) w1)"

subsection \<open>Fetch: routing strategy\<close>

text \<open>
  What the page gets: the handler returns without \<open>event.respondWith\<close> and the request
  takes the normal network path, or it answers with a promise that rejects, or is
  fulfilled with a Response object, or is fulfilled with undefined.
\<close>

datatype reply = NotIntercepted | RespondWith "nat option settled"

text \<open>
  A request fails for the page when the promise given to \<open>respondWith\<close> rejects or is
  fulfilled with something that is no Response.
\<close>

fun request_fails :: "reply \<Rightarrow> bool" where
  "request_fails NotIntercepted = False"
| "request_fails (RespondWith Rejected) = True"
| "request_fails (RespondWith (Fulfilled None)) = True"
| "request_fails (RespondWith (Fulfilled (Some r))) = False"

text \<open>
  Network-first, lines 76 to 82. The store is started and not awaited; the world returned
  is the one after it has settled. The \<open>catch\<close> covers the fetch and the \<open>then\<close> callback.
\<close>

definition network_first :: "string \<Rightarrow> env \<Rightarrow> request \<Rightarrow> world \<Rightarrow> nat option settled \<times> world" where
  "network_first ver e req w =
     (case host_fetch e (url req) w of
        (Rejected, w1) \<Rightarrow>
          (case caches_match (url req) (headers req) w1 of (found, w2) \<Rightarrow> (Fulfilled found, w2))
      | (Fulfilled response, w1) \<Rightarrow>
          (case response_clone response w1 of
             (Rejected, w2) \<Rightarrow>
               (case caches_match (url req) (headers req) w2 of (found, w3) \<Rightarrow> (Fulfilled found, w3))
           | (Fulfilled clone, w2) \<Rightarrow>
               (case cache_put e (STATIC_CACHE ver) (url req) (headers req) clone
                       (caches_open (STATIC_CACHE ver) w2) of
                  (stored, w3) \<Rightarrow> (Fulfilled (Some response), w3))))"

text \<open>Cache-first, lines 99 to 110.\<close>

definition cache_first :: "string \<Rightarrow> env \<Rightarrow> request \<Rightarrow> world \<Rightarrow> nat option settled \<times> world" where
  "cache_first ver e req w =
     (case cache_match (CDN_CACHE ver) (url req) (headers req) (caches_open (CDN_CACHE ver) w) of
        (Some cached, w1) \<Rightarrow> (Fulfilled (Some cached), w1)
      | (None, w1) \<Rightarrow>
          (case host_fetch e (url req) w1 of
             (Rejected, w2) \<Rightarrow> (Rejected, w2)
           | (Fulfilled response, w2) \<Rightarrow>
               (case deref w2 response of
                  None \<Rightarrow> (Rejected, w2)
                | Some x \<Rightarrow>
                    if status (snap x) = 200 then
                      (case response_clone response w2 of
                         (Rejected, w3) \<Rightarrow> (Rejected, w3)
                       | (Fulfilled clone, w3) \<Rightarrow>
                           (case cache_put e (CDN_CACHE ver) (url req) (headers req) clone w3 of
                              (stored, w4) \<Rightarrow> (Fulfilled (Some response), w4)))
                    else (Fulfilled (Some response), w2))))"

definition isCacheable :: "string \<Rightarrow> bool" where
  "isCacheable h =
     (h = ''pyscript.net'' \<or>
      h = ''cdn.jsdelivr.net'' \<or>
      h = ''cdn.plot.ly'' \<or>
      h = ''d3js.org'' \<or>
      h = ''huggingface.co'' \<or>
      h = ''cdn-lfs.huggingface.co'')"

definition fetch_handler :: "string \<Rightarrow> env \<Rightarrow> request \<Rightarrow> world \<Rightarrow> reply \<times> world" where
  "fetch_handler ver e req w =
     (let u = new_URL (url req) in
      if req_method req \<noteq> ''GET'' then (NotIntercepted, w)
      else if endsWith (pathname u) ''.html'' then
        (case network_first ver e req w of (p, w1) \<Rightarrow> (RespondWith p, w1))
      else if isCacheable (hostname u) then
        (case cache_first ver e req w of (p, w1) \<Rightarrow> (RespondWith p, w1))
      else (NotIntercepted, w))"

subsection \<open>Reading a trace\<close>




subsection \<open>Reading the storage\<close>

text \<open>
  The partitions after \<open>caches.open(name)\<close>; whether no partition other than the named
  one holds a pair filed under a URL; whether no partition at all holds one.
\<close>

definition opened :: "string \<Rightarrow> partitions \<Rightarrow> partitions" where
  "opened n cs = (if n \<in> fst ` set cs then cs else cs @ [(n, [])])"

definition elsewhere_absent :: "string \<Rightarrow> string \<Rightarrow> partitions \<Rightarrow> bool" where
  "elsewhere_absent name k cs =
     list_all (\<lambda>(n, c). n \<noteq> name \<longrightarrow> list_all (\<lambda>it. item_key it \<noteq> k) c) cs"

definition absent_everywhere :: "string \<Rightarrow> partitions \<Rightarrow> bool" where
  "absent_everywhere k cs = list_all (\<lambda>(n, c). list_all (\<lambda>it. item_key it \<noteq> k) c) cs"

text \<open>
  The partition of a name holds a response for a request: it has pairs filed under the
  request's URL, and each of them carries this response and answers the request.
\<close>

definition held_for :: "partitions \<Rightarrow> string \<Rightarrow> string \<Rightarrow> header_list \<Rightarrow> snapshot \<Rightarrow> bool" where
  "held_for cs name k hs s =
     (case map_of cs name of
        None \<Rightarrow> False
      | Some c \<Rightarrow>
          list_ex (\<lambda>it. item_key it = k) c \<and>
          list_all (\<lambda>it. item_key it = k \<longrightarrow> item_resp it = s \<and> agrees hs it) c)"

text \<open>
  A listed URL is kept by install when its fetch resolves with an OK response and the
  host accepts the store.
\<close>

definition kept :: "env \<Rightarrow> string \<Rightarrow> string \<Rightarrow> bool" where
  "kept e name u = (case net e u of None \<Rightarrow> False | Some s \<Rightarrow> ok s \<and> put_ok e name u s)"

subsection \<open>Concrete scenarios\<close>

definition page :: snapshot where
  "page = \<lparr> status = 200, vary = [], body = Some ''<html>ARTEMIS</html>'' \<rparr>"

definition script :: snapshot where
  "script = \<lparr> status = 200, vary = [], body = Some ''export default 7'' \<rparr>"

definition error_page :: snapshot where
  "error_page = \<lparr> status = 500, vary = [], body = Some ''Internal Server Error'' \<rparr>"

definition not_found :: snapshot where
  "not_found = \<lparr> status = 404, vary = [], body = Some ''Not Found'' \<rparr>"

text \<open>A partial response, and a script whose content depends on a request header.\<close>

definition partial_page :: snapshot where
  "partial_page = \<lparr> status = 206, vary = [], body = Some ''<html>'' \<rparr>"

definition negotiated :: snapshot where
  "negotiated = \<lparr> status = 200, vary = [''accept-encoding''], body = Some ''export default 7'' \<rparr>"

definition origin :: string where
  "origin = ''https://artemis.example/''"

definition page_url :: string where
  "page_url = ''https://artemis.example/artemis.html''"

definition script_url :: string where
  "script_url = ''https://d3js.org/d3.v7.min.js''"

definition model_url :: string where
  "model_url = ''https://huggingface.co/models/weights.bin''"

definition GET_with :: "string \<Rightarrow> header_list \<Rightarrow> request" where
  "GET_with u hs = \<lparr> req_method = ''GET'', url = u, headers = hs \<rparr>"

definition GET :: "string \<Rightarrow> request" where
  "GET u = \<lparr> req_method = ''GET'', url = u, headers = [] \<rparr>"

definition POST :: "string \<Rightarrow> request" where
  "POST u = \<lparr> req_method = ''POST'', url = u, headers = [] \<rparr>"

text \<open>No connectivity; and a network that serves one URL only.\<close>

definition offline :: env where
  "offline = \<lparr> net = (\<lambda>u. None), quota_ok = (\<lambda>n k s. True) \<rparr>"

definition serving :: "string \<Rightarrow> snapshot \<Rightarrow> env" where
  "serving u s = \<lparr> net = (\<lambda>v. if v = u then Some s else None), quota_ok = (\<lambda>n k s. True) \<rparr>"

text \<open>The same network on a host that has no room for any store.\<close>

definition serving_full :: "string \<Rightarrow> snapshot \<Rightarrow> env" where
  "serving_full u s = \<lparr> net = (\<lambda>v. if v = u then Some s else None), quota_ok = (\<lambda>n k s. False) \<rparr>"

text \<open>
  A network on which one page and every third-party script but one are unreachable, and
  that one script is answered with status 404.
\<close>

definition partly_reachable :: env where
  "partly_reachable =
     \<lparr> net = (\<lambda>u. if u = ''./artemis_ja.html'' then Some page
                  else if u = script_url then Some not_found else None),
       quota_ok = (\<lambda>n k s. True) \<rparr>"

definition fresh :: world where
  "fresh = \<lparr> storage = [], objs = [], trace = [], base = origin \<rparr>"

text \<open>
  A storage whose only partition holds one pair: the response, stored for a request with
  this URL and these headers.
\<close>

definition holding_sent :: "string \<Rightarrow> string \<Rightarrow> header_list \<Rightarrow> snapshot \<Rightarrow> world" where
  "holding_sent name u hs s =
     \<lparr> storage = [(name, [\<lparr> item_key = drop_fragment (resolve origin u), item_sent = hs,
                             item_resp = s \<rparr>])],
       objs = [], trace = [], base = origin \<rparr>"

definition holding :: "string \<Rightarrow> string \<Rightarrow> snapshot \<Rightarrow> world" where
  "holding name u s = holding_sent name u [] s"

text \<open>
  The storage while a newer version is being installed: the partitions of the running
  version are empty and the static partition of the newer one already holds the page.
\<close>

definition during_upgrade :: world where
  "during_upgrade =
     \<lparr> storage = [(STATIC_CACHE ''v1'', []), (CDN_CACHE ''v1'', []),
                  (STATIC_CACHE ''v2'',
                   [\<lparr> item_key = page_url, item_sent = [], item_resp = page \<rparr>])],
       objs = [], trace = [], base = origin \<rparr>"

text \<open>The storage when version v2 is activated over the partitions of v1.\<close>

definition before_activation :: world where
  "before_activation =
     \<lparr> storage = [(STATIC_CACHE ''v1'',
                   [\<lparr> item_key = page_url, item_sent = [], item_resp = error_page \<rparr>]),
                  (CDN_CACHE ''v1'',
                   [\<lparr> item_key = script_url, item_sent = [], item_resp = script \<rparr>]),
                  (STATIC_CACHE ''v2'',
                   [\<lparr> item_key = page_url, item_sent = [], item_resp = page \<rparr>]),
                  (CDN_CACHE ''v2'', [])],
       objs = [], trace = [], base = origin \<rparr>"

text \<open>The world after an install during which only the first page could be fetched.\<close>

definition after_install :: world where
  "after_install = snd (install CACHE_VERSION (serving ''./artemis.html'' page) fresh)"

section \<open>Properties\<close>

subsection \<open>Keys, pairs and partitions\<close>

text \<open>
  What a store does to the pairs of a partition, and what the two ways of reading a
  partition (the response stored last under a URL, the first pair that answers a
  request) find afterwards.
\<close>

lemma request_key_updates [simp]:
  "request_key (w\<lparr>storage := a\<rparr>) = request_key w"
  "request_key (w\<lparr>objs := b\<rparr>) = request_key w"
  "request_key (w\<lparr>trace := c\<rparr>) = request_key w"
  by (simp_all add: request_key_def fun_eq_iff)

lemma latest_none: "latest k c = None \<longleftrightarrow> (\<forall>it \<in> set c. item_key it \<noteq> k)"
proof -
  have "latest k c = None \<longleftrightarrow> filter (\<lambda>it. item_key it = k) (rev c) = []"
    by (simp add: latest_def split: list.splits)
  then show ?thesis
    by (simp add: filter_empty_conv)
qed

lemma find_none_of_latest: "latest k c = None \<Longrightarrow> find (matches k hs) c = None"
  by (auto simp: latest_none find_None_iff matches_def)

lemma latest_put_item: "latest j (put_item k hs s c) = (if j = k then Some s else latest j c)"
proof (cases "j = k")
  case True
  then show ?thesis
    by (simp add: latest_def put_item_def split: list.splits)
next
  case False
  then have "filter (\<lambda>it. item_key it = j) (filter (\<lambda>it. \<not> matches k hs it) (rev c)) =
      filter (\<lambda>it. item_key it = j) (rev c)"
    by (auto simp: matches_def intro: filter_cong)
  with False show ?thesis
    by (simp add: latest_def put_item_def rev_filter)
qed

lemma find_append_cases:
  "find P (xs @ ys) = (case find P xs of None \<Rightarrow> find P ys | Some x \<Rightarrow> Some x)"
  by (induction xs) auto

lemma find_put_item:
  "\<not> List.member (vary s) ''*'' \<Longrightarrow>
   find (matches k hs) (put_item k hs s c) = Some \<lparr> item_key = k, item_sent = hs, item_resp = s \<rparr>"
proof -
  assume star: "\<not> List.member (vary s) ''*''"
  have none: "find (matches k hs) (filter (\<lambda>it. \<not> matches k hs it) c) = None"
    by (simp add: find_None_iff)
  have self: "matches k hs \<lparr> item_key = k, item_sent = hs, item_resp = s \<rparr>"
    using star by (auto simp: matches_def agrees_def list_all_iff List.member_iff)
  show ?thesis
    by (simp add: put_item_def find_append_cases none self)
qed

lemma lookup_snoc_empty [simp]: "lookup (cs @ [(n, [])]) m j = lookup cs m j"
  by (auto simp: lookup_def map_add_def latest_def split: option.splits)

lemma probe_snoc_empty [simp]: "probe (cs @ [(n, [])]) m j hs = probe cs m j hs"
  by (auto simp: probe_def map_add_def split: option.splits)

lemma map_of_store:
  "map_of (store n k hs s cs) m =
     (case map_of cs m of None \<Rightarrow> None | Some c \<Rightarrow> Some (if m = n then put_item k hs s c else c))"
  by (induction cs) (auto simp: store_def)

lemma lookup_store:
  "lookup (store n k hs s cs) m j =
     (if m = n \<and> j = k \<and> n \<in> fst ` set cs then Some s else lookup cs m j)"
proof (cases "map_of cs m")
  case None
  then have "m \<notin> fst ` set cs"
    by (simp add: map_of_eq_None_iff)
  with None show ?thesis
    by (auto simp: lookup_def map_of_store)
next
  case (Some c)
  then have "m \<in> fst ` set cs"
    by (metis map_of_eq_None_iff option.distinct(1))
  with Some show ?thesis
    by (auto simp: lookup_def map_of_store latest_put_item)
qed

lemma probe_store_same:
  "\<not> List.member (vary s) ''*'' \<Longrightarrow> n \<in> fst ` set cs \<Longrightarrow> probe (store n k hs s cs) n k hs = Some s"
proof -
  assume star: "\<not> List.member (vary s) ''*''" and "n \<in> fst ` set cs"
  then obtain c where "map_of cs n = Some c"
    by (metis map_of_eq_None_iff not_Some_eq)
  then show ?thesis
    by (simp add: probe_def map_of_store find_put_item [OF star])
qed

lemma probe_none_of_lookup: "lookup cs n k = None \<Longrightarrow> probe cs n k hs = None"
  by (auto simp: probe_def lookup_def find_none_of_latest split: option.splits)

lemma names_store [simp]: "map fst (store n k hs s cs) = map fst cs"
  by (induction cs) (auto simp: store_def)

lemma lookup_opened [simp]: "lookup (opened n cs) m j = lookup cs m j"
  by (simp add: opened_def)

lemma probe_opened [simp]: "probe (opened n cs) m j hs = probe cs m j hs"
  by (simp add: opened_def)

lemma in_opened [simp]: "n \<in> fst ` set (opened n cs)"
  by (simp add: opened_def)

lemma names_opened [simp]: "fst ` set (opened n cs) = insert n (fst ` set cs)"
  by (auto simp: opened_def)

lemma find_of_held:
  "list_ex (\<lambda>it. item_key it = k) c \<Longrightarrow>
   list_all (\<lambda>it. item_key it = k \<longrightarrow> item_resp it = s \<and> agrees hs it) c \<Longrightarrow>
   \<exists>it. find (matches k hs) c = Some it \<and> item_resp it = s"
  by (induction c) (auto simp: matches_def)

lemma probe_of_held: "held_for cs n k hs s \<Longrightarrow> probe cs n k hs = Some s"
proof -
  assume "held_for cs n k hs s"
  then obtain c where c: "map_of cs n = Some c" "list_ex (\<lambda>it. item_key it = k) c"
      "list_all (\<lambda>it. item_key it = k \<longrightarrow> item_resp it = s \<and> agrees hs it) c"
    by (auto simp: held_for_def split: option.splits)
  from find_of_held [OF c(2,3)] obtain it where "find (matches k hs) c = Some it" "item_resp it = s"
    by blast
  with c(1) show ?thesis
    by (simp add: probe_def)
qed

subsection \<open>The host calls, one by one\<close>

text \<open>
  Each host call as an equation between worlds, under the condition that decides its
  outcome. The handlers are then computed path by path from these equations.
\<close>

lemma miss_of_entry:
  "entry w n u = None \<Longrightarrow> probe (storage w) n (request_key w u) hs = None"
  by (simp add: entry_def probe_none_of_lookup)

lemma caches_open_eq:
  "caches_open n w = w\<lparr>storage := opened n (storage w), trace := trace w @ [Open n]\<rparr>"
  by (simp add: caches_open_def Let_def List.member_iff issue_def opened_def)

lemma cache_match_miss:
  "probe (storage w) n (request_key w u) hs = None \<Longrightarrow>
   cache_match n u hs w = (None, w\<lparr>trace := trace w @ [Match n u]\<rparr>)"
  by (simp add: cache_match_def Let_def issue_def)


lemma host_fetch_rejects:
  "net e u = None \<Longrightarrow> host_fetch e u w = (Rejected, w\<lparr>trace := trace w @ [Fetch u]\<rparr>)"
  by (simp add: host_fetch_def Let_def issue_def)

lemma host_fetch_resolves:
  "net e u = Some s \<Longrightarrow>
   host_fetch e u w =
     (Fulfilled (length (objs w)),
      w\<lparr>objs := objs w @ [\<lparr> snap = s, bodyUsed = False \<rparr>], trace := trace w @ [Fetch u]\<rparr>)"
  by (simp add: host_fetch_def Let_def alloc_def issue_def)

lemma response_clone_fresh:
  "r < length (objs w) \<Longrightarrow> \<not> bodyUsed (objs w ! r) \<Longrightarrow>
   response_clone r w =
     (Fulfilled (length (objs w)), w\<lparr>objs := objs w @ [objs w ! r], trace := trace w @ [Clone r]\<rparr>)"
  by (simp add: response_clone_def Let_def alloc_def deref_def issue_def)

lemma cache_put_refused:
  "r < length (objs w) \<Longrightarrow> \<not> put_ok e n u (snap (objs w ! r)) \<Longrightarrow>
   cache_put e n u hs r w = (Rejected, w\<lparr>trace := trace w @ [Put n u r]\<rparr>)"
  by (simp add: cache_put_def Let_def deref_def issue_def)

lemma cache_put_accepted:
  "r < length (objs w) \<Longrightarrow> \<not> bodyUsed (objs w ! r) \<Longrightarrow> put_ok e n u (snap (objs w ! r)) \<Longrightarrow>
   cache_put e n u hs r w =
     (Fulfilled (),
      w\<lparr>storage := store n (request_key w u) hs (snap (objs w ! r)) (storage w),
        objs := (objs w)[r := (objs w ! r)\<lparr>bodyUsed := (body (snap (objs w ! r)) \<noteq> None)\<rparr>],
        trace := trace w @ [Put n u r]\<rparr>)"
  by (simp add: cache_put_def Let_def deref_def issue_def)

lemma caches_match_found:
  "first_match (storage w) (request_key w u) hs = Some s \<Longrightarrow>
   caches_match u hs w =
     (Some (length (objs w)),
      w\<lparr>objs := objs w @ [\<lparr> snap = s, bodyUsed = False \<rparr>], trace := trace w @ [MatchAll u]\<rparr>)"
  by (simp add: caches_match_def Let_def alloc_def issue_def)

lemma caches_match_none:
  "first_match (storage w) (request_key w u) hs = None \<Longrightarrow>
   caches_match u hs w = (None, w\<lparr>trace := trace w @ [MatchAll u]\<rparr>)"
  by (simp add: caches_match_def Let_def issue_def)

subsection \<open>The two strategies, path by path\<close>




lemma cache_first_on_200:
  assumes "probe (storage w) (CDN_CACHE ver) (request_key w (url req)) (headers req) = None"
    and "net e (url req) = Some s" and "status s = 200"
  shows "cache_first ver e req w =
     (Fulfilled (Some (length (objs w))),
      if put_ok e (CDN_CACHE ver) (url req) s then
        w\<lparr>storage := store (CDN_CACHE ver) (request_key w (url req)) (headers req) s
                       (opened (CDN_CACHE ver) (storage w)),
          objs := objs w @ [\<lparr> snap = s, bodyUsed = False \<rparr>, \<lparr> snap = s, bodyUsed = (body s \<noteq> None) \<rparr>],
          trace := trace w @ [Open (CDN_CACHE ver), Match (CDN_CACHE ver) (url req), Fetch (url req),
                              Clone (length (objs w)),
                              Put (CDN_CACHE ver) (url req) (Suc (length (objs w)))]\<rparr>
      else
        w\<lparr>storage := opened (CDN_CACHE ver) (storage w),
          objs := objs w @ [\<lparr> snap = s, bodyUsed = False \<rparr>, \<lparr> snap = s, bodyUsed = False \<rparr>],
          trace := trace w @ [Open (CDN_CACHE ver), Match (CDN_CACHE ver) (url req), Fetch (url req),
                              Clone (length (objs w)),
                              Put (CDN_CACHE ver) (url req) (Suc (length (objs w)))]\<rparr>)"
  using assms
  by (simp add: cache_first_def caches_open_eq cache_match_miss host_fetch_resolves deref_def
      response_clone_fresh cache_put_accepted cache_put_refused nth_append list_update_append)

lemma network_first_on_reject:
  assumes "net e (url req) = None"
  shows "network_first ver e req w =
     (case first_match (storage w) (request_key w (url req)) (headers req) of
        None \<Rightarrow> (Fulfilled None, w\<lparr>trace := trace w @ [Fetch (url req), MatchAll (url req)]\<rparr>)
      | Some s \<Rightarrow>
          (Fulfilled (Some (length (objs w))),
           w\<lparr>objs := objs w @ [\<lparr> snap = s, bodyUsed = False \<rparr>],
             trace := trace w @ [Fetch (url req), MatchAll (url req)]\<rparr>))"
  using assms
  by (simp add: network_first_def host_fetch_rejects caches_match_found caches_match_none
      split: option.splits)

lemma network_first_on_resolve:
  assumes "net e (url req) = Some s"
  shows "network_first ver e req w =
     (Fulfilled (Some (length (objs w))),
      if put_ok e (STATIC_CACHE ver) (url req) s then
        w\<lparr>storage := store (STATIC_CACHE ver) (request_key w (url req)) (headers req) s
                       (opened (STATIC_CACHE ver) (storage w)),
          objs := objs w @ [\<lparr> snap = s, bodyUsed = False \<rparr>, \<lparr> snap = s, bodyUsed = (body s \<noteq> None) \<rparr>],
          trace := trace w @ [Fetch (url req), Clone (length (objs w)), Open (STATIC_CACHE ver),
                              Put (STATIC_CACHE ver) (url req) (Suc (length (objs w)))]\<rparr>
      else
        w\<lparr>storage := opened (STATIC_CACHE ver) (storage w),
          objs := objs w @ [\<lparr> snap = s, bodyUsed = False \<rparr>, \<lparr> snap = s, bodyUsed = False \<rparr>],
          trace := trace w @ [Fetch (url req), Clone (length (objs w)), Open (STATIC_CACHE ver),
                              Put (STATIC_CACHE ver) (url req) (Suc (length (objs w)))]\<rparr>)"
  using assms
  by (simp add: network_first_def caches_open_eq host_fetch_resolves deref_def
      response_clone_fresh cache_put_accepted cache_put_refused nth_append list_update_append)

lemma network_first_keeps_cdn:
  "entry (snd (network_first ver e req w)) (CDN_CACHE ver) k = entry w (CDN_CACHE ver) k"
proof (cases "net e (url req)")
  case None
  then show ?thesis
    by (simp add: network_first_on_reject entry_def request_key_def split: option.splits)
next
  case (Some s)
  then show ?thesis
    by (simp add: network_first_on_resolve entry_def request_key_def lookup_store
        STATIC_CACHE_def CDN_CACHE_def)
qed

subsection \<open>The lookup over the whole storage\<close>

text \<open>
  The search through all partitions agrees with the lookup in one partition when no other
  partition has a pair under the URL, and finds nothing when no partition has one.
\<close>

lemma first_match_sole:
  "probe cs n k hs = Some s \<Longrightarrow> elsewhere_absent n k cs \<Longrightarrow> first_match cs k hs = Some s"
proof (induction cs)
  case Nil
  then show ?case by (simp add: probe_def)
next
  case (Cons p cs)
  obtain m c where p: "p = (m, c)" by (cases p)
  show ?case
  proof (cases "m = n")
    case True
    with Cons.prems(1) show ?thesis
      by (auto simp: p probe_def split: option.splits)
  next
    case False
    with Cons.prems(2) have "find (matches k hs) c = None"
      by (auto simp: p elsewhere_absent_def find_None_iff matches_def list_all_iff)
    moreover from False Cons.prems have "first_match cs k hs = Some s"
      by (intro Cons.IH) (auto simp: p probe_def elsewhere_absent_def)
    ultimately show ?thesis
      by (simp add: p)
  qed
qed

lemma first_match_absent: "absent_everywhere k cs \<Longrightarrow> first_match cs k hs = None"
proof (induction cs)
  case Nil
  show ?case by simp
next
  case (Cons p cs)
  obtain m c where p: "p = (m, c)" by (cases p)
  from Cons.prems have "find (matches k hs) c = None"
    by (auto simp: p absent_everywhere_def find_None_iff matches_def list_all_iff)
  moreover from Cons have "first_match cs k hs = None"
    by (simp add: p absent_everywhere_def)
  ultimately show ?case
    by (simp add: p)
qed

lemma elsewhere_absent_opened [simp]:
  "elsewhere_absent n k (opened m cs) = elsewhere_absent n k cs"
  by (simp add: elsewhere_absent_def opened_def)

lemma elsewhere_absent_store [simp]:
  "elsewhere_absent n k (store n j hs s cs) = elsewhere_absent n k cs"
  by (induction cs) (auto simp: elsewhere_absent_def store_def split: if_splits)

subsection \<open>Activate and install, step by step\<close>

text \<open>
  Deleting a list of names filters the storage; prefetching a list of URLs that the cache
  files under different keys changes, in the opened partition, the entries of exactly the
  URLs that are kept. Both are inductions on the list, with the world generalised.
\<close>

lemma map_of_filter_names:
  "map_of (filter (\<lambda>(n, c). P n) cs) m = (if P m then map_of cs m else None)"
  by (induction cs) auto

lemma lookup_filter_names:
  "lookup (filter (\<lambda>(n, c). P n) cs) m k = (if P m then lookup cs m k else None)"
  by (simp add: lookup_def map_of_filter_names)

lemma caches_delete_eq:
  "caches_delete n w =
     (Fulfilled (n \<in> fst ` set (storage w)),
      w\<lparr>storage := filter (\<lambda>(m, c). m \<noteq> n) (storage w), trace := trace w @ [Delete n]\<rparr>)"
  by (simp add: caches_delete_def Let_def issue_def List.member_iff)

lemma promise_all_deletes:
  "(\<exists>bs. fst (promise_all (map caches_delete ns) w) = Fulfilled bs) \<and>
   storage (snd (promise_all (map caches_delete ns) w)) = filter (\<lambda>(m, c). m \<notin> set ns) (storage w) \<and>
   objs (snd (promise_all (map caches_delete ns) w)) = objs w \<and>
   base (snd (promise_all (map caches_delete ns) w)) = base w"
proof (induction ns arbitrary: w)
  case Nil
  show ?case by simp
next
  case (Cons n ns)
  let ?w1 = "w\<lparr>storage := filter (\<lambda>(m, c). m \<noteq> n) (storage w), trace := trace w @ [Delete n]\<rparr>"
  from Cons [of ?w1] show ?case
    by (auto simp: caches_delete_eq case_prod_beta intro: filter_cong)
qed

lemma storage_activate:
  "storage (snd (activate ver w)) =
     filter (\<lambda>(n, c). n = STATIC_CACHE ver \<or> n = CDN_CACHE ver) (storage w)"
proof -
  let ?ns = "filter (\<lambda>n. \<not> List.member (ALL_CACHES ver) n) (map fst (storage w))"
  have "storage (snd (activate ver w)) = filter (\<lambda>(m, c). m \<notin> set ?ns) (storage w)"
    using promise_all_deletes [of ?ns "issue Keys w"]
    by (simp add: activate_def caches_keys_def issue_def)
  also have "\<dots> = filter (\<lambda>(n, c). n = STATIC_CACHE ver \<or> n = CDN_CACHE ver) (storage w)"
    by (rule filter_cong) (auto simp: List.member_iff ALL_CACHES_def rev_image_eqI)
  finally show ?thesis .
qed

lemma base_activate: "base (snd (activate ver w)) = base w"
  using promise_all_deletes [of _ "issue Keys w"]
  by (simp add: activate_def caches_keys_def issue_def)

lemma prefetch_eq:
  "prefetch e n u w =
     (Fulfilled (),
      case net e u of
        None \<Rightarrow> w\<lparr>trace := trace w @ [Fetch u]\<rparr>
      | Some s \<Rightarrow>
          if ok s then
            if put_ok e n u s then
              w\<lparr>storage := store n (request_key w u) [] s (storage w),
                objs := objs w @ [\<lparr> snap = s, bodyUsed = (body s \<noteq> None) \<rparr>],
                trace := trace w @ [Fetch u, Put n u (length (objs w))]\<rparr>
            else
              w\<lparr>objs := objs w @ [\<lparr> snap = s, bodyUsed = False \<rparr>],
                trace := trace w @ [Fetch u, Put n u (length (objs w))]\<rparr>
          else
            w\<lparr>objs := objs w @ [\<lparr> snap = s, bodyUsed = False \<rparr>], trace := trace w @ [Fetch u]\<rparr>)"
  by (cases "net e u")
     (simp_all add: prefetch_def host_fetch_rejects host_fetch_resolves deref_def
        cache_put_accepted cache_put_refused)

lemma storage_prefetch:
  "storage (snd (prefetch e n u w)) =
     (if kept e n u then store n (request_key w u) [] (the (net e u)) (storage w) else storage w)"
  by (simp add: prefetch_eq kept_def split: option.splits)

lemma base_prefetch [simp]: "base (snd (prefetch e n u w)) = base w"
  by (simp add: prefetch_eq split: option.splits)

lemma names_differ [simp]: "STATIC_CACHE ver \<noteq> CDN_CACHE ver" "CDN_CACHE ver \<noteq> STATIC_CACHE ver"
  by (simp_all add: STATIC_CACHE_def CDN_CACHE_def)

lemma request_key_prefetch [simp]: "request_key (snd (prefetch e n u w)) = request_key w"
  by (simp add: request_key_def fun_eq_iff)

lemma lookup_prefetch:
  "lookup (storage (snd (prefetch e n u w))) m j =
     (if m = n \<and> j = request_key w u \<and> n \<in> fst ` set (storage w) \<and> kept e n u then net e u
      else lookup (storage w) m j)"
  by (auto simp: storage_prefetch lookup_store kept_def split: option.splits)

lemma all_settled_prefetch:
  assumes "distinct (map (request_key w) us)"
  shows "(\<exists>rs. fst (all_settled (map (prefetch e n) us) w) = Fulfilled rs) \<and>
     map fst (storage (snd (all_settled (map (prefetch e n) us) w))) = map fst (storage w) \<and>
     base (snd (all_settled (map (prefetch e n) us) w)) = base w \<and>
     (\<forall>u \<in> set us.
        lookup (storage (snd (all_settled (map (prefetch e n) us) w))) n (request_key w u) =
          (if n \<in> fst ` set (storage w) \<and> kept e n u then net e u
           else lookup (storage w) n (request_key w u))) \<and>
     (\<forall>m j. m \<noteq> n \<or> j \<notin> request_key w ` set us \<longrightarrow>
        lookup (storage (snd (all_settled (map (prefetch e n) us) w))) m j = lookup (storage w) m j)"
  using assms
proof (induction us arbitrary: w)
  case Nil
  show ?case by simp
next
  case (Cons u us)
  let ?w1 = "snd (prefetch e n u w)"
  let ?w2 = "snd (all_settled (map (prefetch e n) us) ?w1)"
  have names: "map fst (storage ?w1) = map fst (storage w)"
    by (simp add: storage_prefetch)
  then have same: "fst ` set (storage ?w1) = fst ` set (storage w)"
    by (metis list.set_map)
  from Cons.prems have fresh_key: "request_key w u \<notin> request_key w ` set us"
    and rest: "distinct (map (request_key ?w1) us)"
    by simp_all
  note IH = Cons.IH [OF rest]
  have run: "snd (all_settled (map (prefetch e n) (u # us)) w) = ?w2"
    by (simp add: case_prod_beta)
  have settled: "\<exists>rs. fst (all_settled (map (prefetch e n) (u # us)) w) = Fulfilled rs"
    using IH by (auto simp: case_prod_beta)
  have head: "lookup (storage ?w2) n (request_key w u) =
      (if n \<in> fst ` set (storage w) \<and> kept e n u then net e u
       else lookup (storage w) n (request_key w u))"
  proof -
    have "lookup (storage ?w2) n (request_key w u) = lookup (storage ?w1) n (request_key w u)"
      using IH fresh_key by simp
    then show ?thesis
      by (simp add: lookup_prefetch)
  qed
  have tail: "lookup (storage ?w2) n (request_key w v) =
      (if n \<in> fst ` set (storage w) \<and> kept e n v then net e v
       else lookup (storage w) n (request_key w v))" if "v \<in> set us" for v
  proof -
    from that fresh_key have "request_key w v \<noteq> request_key w u"
      by (metis imageI)
    then have "lookup (storage ?w1) n (request_key w v) = lookup (storage w) n (request_key w v)"
      by (simp add: lookup_prefetch)
    with IH that show ?thesis
      by (simp add: same)
  qed
  have other: "lookup (storage ?w2) m j = lookup (storage w) m j"
    if "m \<noteq> n \<or> j \<notin> request_key w ` set (u # us)" for m j
  proof -
    from that have "lookup (storage ?w2) m j = lookup (storage ?w1) m j"
      using IH by auto
    also from that have "\<dots> = lookup (storage w) m j"
      by (auto simp: lookup_prefetch)
    finally show ?thesis .
  qed
  have "map fst (storage ?w2) = map fst (storage w)" "base ?w2 = base w"
    using IH names by simp_all
  with settled head tail other show ?case
    by (simp only: run) auto
qed

lemma prefetch_list_effect:
  assumes "distinct (map (request_key w) us)"
  shows "fst (prefetch_list e n us w) = Fulfilled () \<and>
     fst ` set (storage (snd (prefetch_list e n us w))) = insert n (fst ` set (storage w)) \<and>
     base (snd (prefetch_list e n us w)) = base w \<and>
     (\<forall>u \<in> set us.
        entry (snd (prefetch_list e n us w)) n u =
          (if kept e n u then net e u else entry w n u)) \<and>
     (\<forall>m j. m \<noteq> n \<or> j \<notin> request_key w ` set us \<longrightarrow>
        lookup (storage (snd (prefetch_list e n us w))) m j = lookup (storage w) m j)"
proof -
  let ?w0 = "caches_open n w"
  let ?run = "all_settled (map (prefetch e n) us) ?w0"
  have w0: "storage ?w0 = opened n (storage w)" "base ?w0 = base w"
    and key0: "request_key ?w0 = request_key w"
    by (simp_all add: caches_open_eq request_key_def fun_eq_iff)
  from assms have "distinct (map (request_key ?w0) us)"
    by (simp add: key0)
  note eff = all_settled_prefetch [OF this, of e n, unfolded key0]
  obtain rs where rs: "fst ?run = Fulfilled rs"
    using eff by blast
  have snd_eq: "snd (prefetch_list e n us w) = snd ?run"
    and fst_eq: "fst (prefetch_list e n us w) = Fulfilled ()"
    using rs by (simp_all add: prefetch_list_def case_prod_beta split: settled.splits)
  have "map fst (storage (snd ?run)) = map fst (storage ?w0)"
    using eff by blast
  then have "set (map fst (storage (snd ?run))) = set (map fst (storage ?w0))"
    by simp
  then have names: "fst ` set (storage (snd ?run)) = insert n (fst ` set (storage w))"
    by (simp add: w0)
  have base_eq: "base (snd ?run) = base w"
    using eff by (simp add: w0)
  then have key_eq: "request_key (snd ?run) = request_key w"
    by (simp add: request_key_def fun_eq_iff)
  have listed: "entry (snd ?run) n u = (if kept e n u then net e u else entry w n u)"
    if "u \<in> set us" for u
    using eff that by (simp add: entry_def key_eq w0)
  have other: "lookup (storage (snd ?run)) m j = lookup (storage w) m j"
    if "m \<noteq> n \<or> j \<notin> request_key w ` set us" for m j
    using eff that by (simp add: w0)
  show ?thesis
    using names base_eq listed other by (simp only: snd_eq fst_eq) auto
qed

lemma drop_fragment_resolved:
  "drop_fragment (takeWhile (\<lambda>c. \<not> path_end c) b @ x) =
     takeWhile (\<lambda>c. \<not> path_end c) b @ drop_fragment x"
proof -
  have "\<forall>c \<in> set (takeWhile (\<lambda>c. \<not> path_end c) b). c \<noteq> CHR ''#''"
    by (auto dest: set_takeWhileD simp: path_end_def)
  then show ?thesis
    by (simp add: drop_fragment_def takeWhile_append2)
qed

lemma static_keys:
  "request_key w ''./artemis.html'' = takeWhile (\<lambda>c. \<not> path_end c) (base w) @ ''artemis.html''"
  "request_key w ''./artemis_ja.html'' = takeWhile (\<lambda>c. \<not> path_end c) (base w) @ ''artemis_ja.html''"
  by (simp_all add: request_key_def resolve_def drop_fragment_resolved)
     (simp_all add: drop_fragment_def)

lemma static_keys_distinct: "distinct (map (request_key w) STATIC_ASSETS)"
  by (simp add: STATIC_ASSETS_def static_keys)

lemma cdn_keys: "map (request_key w) CDN_PREFETCH = CDN_PREFETCH"
  by (simp add: CDN_PREFETCH_def request_key_def resolve_def drop_fragment_def)

lemma cdn_keys_distinct: "distinct (map (request_key w) CDN_PREFETCH)"
  by (simp only: cdn_keys) (simp add: CDN_PREFETCH_def)

lemma install_effect:
  "fst (install ver e w) = Fulfilled [(), ()] \<and>
   base (snd (install ver e w)) = base w \<and>
   (\<forall>u \<in> set STATIC_ASSETS.
      entry (snd (install ver e w)) (STATIC_CACHE ver) u =
        (if kept e (STATIC_CACHE ver) u then net e u else entry w (STATIC_CACHE ver) u)) \<and>
   (\<forall>u \<in> set CDN_PREFETCH.
      entry (snd (install ver e w)) (CDN_CACHE ver) u =
        (if kept e (CDN_CACHE ver) u then net e u else entry w (CDN_CACHE ver) u)) \<and>
   (\<forall>j. j \<notin> set CDN_PREFETCH \<longrightarrow>
      lookup (storage (snd (install ver e w))) (CDN_CACHE ver) j =
        lookup (storage w) (CDN_CACHE ver) j)"
proof -
  let ?w1 = "snd (prefetch_list e (STATIC_CACHE ver) STATIC_ASSETS w)"
  let ?w2 = "snd (prefetch_list e (CDN_CACHE ver) CDN_PREFETCH ?w1)"
  note one = prefetch_list_effect [OF static_keys_distinct, of e "STATIC_CACHE ver" w]
  note two = prefetch_list_effect [OF cdn_keys_distinct, of e "CDN_CACHE ver" ?w1]
  have snd_eq: "snd (install ver e w) = ?w2"
    by (simp add: install_def case_prod_beta)
  have fst_eq: "fst (install ver e w) = Fulfilled [(), ()]"
    using one two by (simp add: install_def case_prod_beta)
  have base1: "base ?w1 = base w" and base2: "base ?w2 = base w"
    using one two by simp_all
  then have key1: "request_key ?w1 = request_key w" and key2: "request_key ?w2 = request_key w"
    by (simp_all add: request_key_def fun_eq_iff)
  have cdn_set: "request_key ?w1 ` set CDN_PREFETCH = set CDN_PREFETCH"
    by (metis cdn_keys list.set_map)
  have static: "entry ?w2 (STATIC_CACHE ver) u =
      (if kept e (STATIC_CACHE ver) u then net e u else entry w (STATIC_CACHE ver) u)"
    if "u \<in> set STATIC_ASSETS" for u
  proof -
    have "entry ?w2 (STATIC_CACHE ver) u = entry ?w1 (STATIC_CACHE ver) u"
      using two by (simp add: entry_def key1 key2)
    with one that show ?thesis
      by simp
  qed
  have cdn: "entry ?w2 (CDN_CACHE ver) u =
      (if kept e (CDN_CACHE ver) u then net e u else entry w (CDN_CACHE ver) u)"
    if "u \<in> set CDN_PREFETCH" for u
  proof -
    have "entry ?w1 (CDN_CACHE ver) u = entry w (CDN_CACHE ver) u"
      using one by (simp add: entry_def key1)
    with two that show ?thesis
      by simp
  qed
  have other: "lookup (storage ?w2) (CDN_CACHE ver) j = lookup (storage w) (CDN_CACHE ver) j"
    if "j \<notin> set CDN_PREFETCH" for j
  proof -
    from that two have "lookup (storage ?w2) (CDN_CACHE ver) j = lookup (storage ?w1) (CDN_CACHE ver) j"
      by (simp add: cdn_set)
    also from one have "\<dots> = lookup (storage w) (CDN_CACHE ver) j"
      by simp
    finally show ?thesis .
  qed
  show ?thesis
    using static cdn other by (simp only: snd_eq fst_eq base2) auto
qed

lemma prefetch_hosts:
  "\<forall>u \<in> set CDN_PREFETCH.
     hostname (new_URL (u @ rest)) \<noteq> ''huggingface.co'' \<and>
     hostname (new_URL (u @ rest)) \<noteq> ''cdn-lfs.huggingface.co''"
  by (simp add: CDN_PREFETCH_def new_URL_def path_start_def path_end_def)

subsection \<open>Evaluating the scenarios\<close>

lemmas scenario =
  GET_def GET_with_def POST_def page_url_def script_url_def model_url_def origin_def
  page_def script_def error_page_def not_found_def partial_page_def negotiated_def
  offline_def serving_def serving_full_def partly_reachable_def
  fresh_def holding_def holding_sent_def during_upgrade_def before_activation_def

lemmas reading =
  entry_def lookup_def latest_def probe_def matches_def agrees_def request_key_def resolve_def
  drop_fragment_def put_ok_def ok_def new_URL_def path_start_def path_end_def endsWith_def
  elsewhere_absent_def absent_everywhere_def

subsection \<open>Classification of requests\<close>

text \<open>
  C1. A GET request whose path ends in ".html" is answered by the network-first strategy;
  a GET request whose path does not end in ".html" and whose hostname is one of
  pyscript.net, cdn.jsdelivr.net, cdn.plot.ly, d3js.org, huggingface.co and
  cdn-lfs.huggingface.co is answered by the cache-first strategy; for every other request
  (not GET, or neither ".html" nor one of these hosts) the handler does not call
  respondWith, makes no host call and leaves the world as it was.
\<close>

theorem classification:
  "(req_method req = ''GET'' \<and> endsWith (pathname (new_URL (url req))) ''.html'' \<longrightarrow>
      fetch_handler ver e req w =
        (RespondWith (fst (network_first ver e req w)), snd (network_first ver e req w))) \<and>
   (req_method req = ''GET'' \<and> \<not> endsWith (pathname (new_URL (url req))) ''.html'' \<and>
      hostname (new_URL (url req)) \<in>
        {''pyscript.net'', ''cdn.jsdelivr.net'', ''cdn.plot.ly'', ''d3js.org'',
         ''huggingface.co'', ''cdn-lfs.huggingface.co''} \<longrightarrow>
      fetch_handler ver e req w =
        (RespondWith (fst (cache_first ver e req w)), snd (cache_first ver e req w))) \<and>
   (req_method req \<noteq> ''GET'' \<or>
      (\<not> endsWith (pathname (new_URL (url req))) ''.html'' \<and>
       hostname (new_URL (url req)) \<notin>
        {''pyscript.net'', ''cdn.jsdelivr.net'', ''cdn.plot.ly'', ''d3js.org'',
         ''huggingface.co'', ''cdn-lfs.huggingface.co''}) \<longrightarrow>
      fetch_handler ver e req w = (NotIntercepted, w))"
  unfolding fetch_handler_def isCacheable_def Let_def
  by (simp add: case_prod_beta)

theorem classification_witness:
  "(req_method (GET page_url) = ''GET'' \<and> endsWith (pathname (new_URL (url (GET page_url)))) ''.html'' \<and>
    fetch_handler CACHE_VERSION offline (GET page_url) fresh =
      (RespondWith (fst (network_first CACHE_VERSION offline (GET page_url) fresh)),
       snd (network_first CACHE_VERSION offline (GET page_url) fresh))) \<and>
   (req_method (GET script_url) = ''GET'' \<and>
    \<not> endsWith (pathname (new_URL (url (GET script_url)))) ''.html'' \<and>
    hostname (new_URL (url (GET script_url))) = ''d3js.org'' \<and>
    fetch_handler CACHE_VERSION offline (GET script_url) fresh =
      (RespondWith (fst (cache_first CACHE_VERSION offline (GET script_url) fresh)),
       snd (cache_first CACHE_VERSION offline (GET script_url) fresh))) \<and>
   (req_method (POST page_url) \<noteq> ''GET'' \<and>
    fetch_handler CACHE_VERSION offline (POST page_url) fresh = (NotIntercepted, fresh))"
proof -
  have html: "req_method (GET page_url) = ''GET'' \<and>
      endsWith (pathname (new_URL (url (GET page_url)))) ''.html''"
    by (simp add: GET_def page_url_def new_URL_def path_start_def path_end_def endsWith_def)
  have cdn: "req_method (GET script_url) = ''GET'' \<and>
      \<not> endsWith (pathname (new_URL (url (GET script_url)))) ''.html'' \<and>
      hostname (new_URL (url (GET script_url))) = ''d3js.org''"
    by (simp add: GET_def script_url_def new_URL_def path_start_def path_end_def endsWith_def)
  have post: "req_method (POST page_url) \<noteq> ''GET''"
    by (simp add: POST_def)
  show ?thesis
    using html cdn post
      classification [of "GET page_url" CACHE_VERSION offline fresh]
      classification [of "GET script_url" CACHE_VERSION offline fresh]
      classification [of "POST page_url" CACHE_VERSION offline fresh]
    by simp
qed

subsection \<open>Cache-first\<close>








subsection \<open>Network-first\<close>

text \<open>
  C3, as amended. For a GET request whose path ends in ".html" and whose fetch promise
  rejects, the handler looks the request up in the whole cache storage, not in the static
  partition alone: the partitions are searched in the order of their creation, by URL with
  the fragment left aside and by the headers a stored response varies on. When some pair
  answers the request the caller gets the snapshot of the first that does; when the
  static partition holds a snapshot for the request and no other partition has a pair
  under that URL, that is the snapshot of the static partition. When no pair answers the
  request, as when no partition has a pair under that URL, respondWith is given
  undefined, the request fails, and no Response object is made up.
\<close>

theorem network_first_fallback:
  assumes "req_method req = ''GET''" and "endsWith (pathname (new_URL (url req))) ''.html''"
    and "net e (url req) = None"
  shows "(\<forall>s. first_match (storage w) (request_key w (url req)) (headers req) = Some s \<longrightarrow>
            (\<exists>r. fst (fetch_handler ver e req w) = RespondWith (Fulfilled (Some r)) \<and>
                 deref (snd (fetch_handler ver e req w)) r = Some \<lparr> snap = s, bodyUsed = False \<rparr>)) \<and>
         (\<forall>s. held_for (storage w) (STATIC_CACHE ver) (request_key w (url req)) (headers req) s \<and>
              elsewhere_absent (STATIC_CACHE ver) (request_key w (url req)) (storage w) \<longrightarrow>
            (\<exists>r. fst (fetch_handler ver e req w) = RespondWith (Fulfilled (Some r)) \<and>
                 deref (snd (fetch_handler ver e req w)) r = Some \<lparr> snap = s, bodyUsed = False \<rparr>)) \<and>
         (first_match (storage w) (request_key w (url req)) (headers req) = None \<or>
          absent_everywhere (request_key w (url req)) (storage w) \<longrightarrow>
            fst (fetch_handler ver e req w) = RespondWith (Fulfilled None) \<and>
            request_fails (fst (fetch_handler ver e req w)) \<and>
            objs (snd (fetch_handler ver e req w)) = objs w)"
proof -
  have run: "fetch_handler ver e req w =
      (RespondWith (fst (network_first ver e req w)), snd (network_first ver e req w))"
    using assms(1,2) by (simp add: fetch_handler_def case_prod_beta)
  have found: "\<exists>r. fst (fetch_handler ver e req w) = RespondWith (Fulfilled (Some r)) \<and>
      deref (snd (fetch_handler ver e req w)) r = Some \<lparr> snap = s, bodyUsed = False \<rparr>"
    if "first_match (storage w) (request_key w (url req)) (headers req) = Some s" for s
    using that by (simp add: run network_first_on_reject [OF assms(3)] deref_def)
  have sole: "first_match (storage w) (request_key w (url req)) (headers req) = Some s"
    if "held_for (storage w) (STATIC_CACHE ver) (request_key w (url req)) (headers req) s"
      and "elsewhere_absent (STATIC_CACHE ver) (request_key w (url req)) (storage w)" for s
    using that by (intro first_match_sole probe_of_held)
  have lost: "fst (fetch_handler ver e req w) = RespondWith (Fulfilled None) \<and>
      request_fails (fst (fetch_handler ver e req w)) \<and>
      objs (snd (fetch_handler ver e req w)) = objs w"
    if "first_match (storage w) (request_key w (url req)) (headers req) = None \<or>
        absent_everywhere (request_key w (url req)) (storage w)"
  proof -
    from that have "first_match (storage w) (request_key w (url req)) (headers req) = None"
      by (auto simp: first_match_absent)
    then show ?thesis
      by (simp add: run network_first_on_reject [OF assms(3)])
  qed
  show ?thesis
    using found sole lost by blast
qed

theorem network_first_fallback_witness:
  "req_method (GET (page_url @ ''#top'')) = ''GET'' \<and>
   endsWith (pathname (new_URL (url (GET (page_url @ ''#top''))))) ''.html'' \<and>
   net offline (url (GET (page_url @ ''#top''))) = None \<and>
   held_for (storage after_install) (STATIC_CACHE CACHE_VERSION)
     (request_key after_install (url (GET (page_url @ ''#top''))))
     (headers (GET (page_url @ ''#top''))) page \<and>
   elsewhere_absent (STATIC_CACHE CACHE_VERSION)
     (request_key after_install (url (GET (page_url @ ''#top'')))) (storage after_install) \<and>
   (\<exists>r. fst (fetch_handler CACHE_VERSION offline (GET (page_url @ ''#top'')) after_install) =
           RespondWith (Fulfilled (Some r)) \<and>
        deref (snd (fetch_handler CACHE_VERSION offline (GET (page_url @ ''#top'')) after_install)) r =
           Some \<lparr> snap = page, bodyUsed = False \<rparr>) \<and>
   absent_everywhere (request_key fresh (url (GET (page_url @ ''#top'')))) (storage fresh) \<and>
   request_fails (fst (fetch_handler CACHE_VERSION offline (GET (page_url @ ''#top'')) fresh))"
proof -
  let ?req = "GET (page_url @ ''#top'')"
  have installed: "storage after_install =
     [(STATIC_CACHE CACHE_VERSION, [\<lparr> item_key = page_url, item_sent = [], item_resp = page \<rparr>]),
      (CDN_CACHE CACHE_VERSION, [])]"
    by (simp add: after_install_def install_def prefetch_list_def prefetch_eq caches_open_eq
        opened_def case_prod_beta STATIC_ASSETS_def CDN_PREFETCH_def store_def put_item_def
        scenario reading STATIC_CACHE_def CDN_CACHE_def CACHE_VERSION_def)
  have located: "base after_install = origin"
    using install_effect [of CACHE_VERSION "serving ''./artemis.html'' page" fresh]
    by (simp add: after_install_def fresh_def)
  have key: "request_key after_install (url ?req) = page_url"
    "request_key fresh (url ?req) = page_url"
    by (simp_all add: request_key_def located resolve_def drop_fragment_def GET_def page_url_def
        fresh_def)
  have get: "req_method ?req = ''GET''"
    by (simp add: GET_def)
  have html: "endsWith (pathname (new_URL (url ?req))) ''.html''"
    by (simp add: scenario reading)
  have down: "net offline (url ?req) = None"
    by (simp add: offline_def)
  have held: "held_for (storage after_install) (STATIC_CACHE CACHE_VERSION)
      (request_key after_install (url ?req)) (headers ?req) page"
    and sole: "elsewhere_absent (STATIC_CACHE CACHE_VERSION)
      (request_key after_install (url ?req)) (storage after_install)"
    and none: "absent_everywhere (request_key fresh (url ?req)) (storage fresh)"
    by (simp_all add: key installed held_for_def agrees_def page_def elsewhere_absent_def
        absent_everywhere_def fresh_def STATIC_CACHE_def CDN_CACHE_def)
  have served: "\<exists>r. fst (fetch_handler CACHE_VERSION offline ?req after_install) =
           RespondWith (Fulfilled (Some r)) \<and>
        deref (snd (fetch_handler CACHE_VERSION offline ?req after_install)) r =
           Some \<lparr> snap = page, bodyUsed = False \<rparr>"
    using network_first_fallback [OF get html down, of after_install CACHE_VERSION] held sole
    by blast
  have fails: "request_fails (fst (fetch_handler CACHE_VERSION offline ?req fresh))"
    using network_first_fallback [OF get html down, of fresh CACHE_VERSION] none
    by blast
  show ?thesis
    using get html down held sole served none fails by - (assumption | rule conjI)+
qed

text \<open>
  The claim C3 as it was stated fails: with no connectivity and nothing under the key in
  the static partition of the running version, the request does not fail when another
  partition of the storage holds the key; the caller gets that partition's snapshot.
\<close>

theorem static_only_fallback_counterexample:
  "req_method (GET page_url) = ''GET'' \<and>
   endsWith (pathname (new_URL (url (GET page_url)))) ''.html'' \<and>
   net offline (url (GET page_url)) = None \<and>
   entry during_upgrade (STATIC_CACHE CACHE_VERSION) (url (GET page_url)) = None \<and>
   \<not> request_fails (fst (fetch_handler CACHE_VERSION offline (GET page_url) during_upgrade)) \<and>
   fst (fetch_handler CACHE_VERSION offline (GET page_url) during_upgrade) =
     RespondWith (Fulfilled (Some 0)) \<and>
   deref (snd (fetch_handler CACHE_VERSION offline (GET page_url) during_upgrade)) 0 =
     Some \<lparr> snap = page, bodyUsed = False \<rparr>"
proof -
  have get: "req_method (GET page_url) = ''GET''"
    by (simp add: GET_def)
  have html: "endsWith (pathname (new_URL (url (GET page_url)))) ''.html''"
    by (simp add: scenario reading)
  have down: "net offline (url (GET page_url)) = None"
    by (simp add: offline_def)
  have found: "first_match (storage during_upgrade)
      (request_key during_upgrade (url (GET page_url))) (headers (GET page_url)) = Some page"
    by (simp add: scenario reading)
  have empty: "objs during_upgrade = []"
    by (simp add: during_upgrade_def)
  have run: "fetch_handler CACHE_VERSION offline (GET page_url) during_upgrade =
      (RespondWith (Fulfilled (Some 0)),
       during_upgrade\<lparr>objs := [\<lparr> snap = page, bodyUsed = False \<rparr>],
                      trace := trace during_upgrade @
                        [Fetch (url (GET page_url)), MatchAll (url (GET page_url))]\<rparr>)"
    by (simp add: fetch_handler_def get html network_first_on_reject [OF down] found empty)
  have miss: "entry during_upgrade (STATIC_CACHE CACHE_VERSION) (url (GET page_url)) = None"
    by (simp add: scenario reading STATIC_CACHE_def CDN_CACHE_def CACHE_VERSION_def)
  show ?thesis
    using get html down miss by (simp add: run deref_def)
qed

subsection \<open>Duplication before the body is read\<close>



subsection \<open>Network-first stores whatever the fetch resolves with\<close>

text \<open>
  C10, as amended. In the network-first branch every response the fetch resolves with,
  whatever its status, is cloned, a store of the clone into the static partition under the
  key of the request is issued, and the live response is returned with its body unread:
  no status check stands before the store. The store takes effect unless the host
  refuses it, as \<open>cache.put\<close> does for a response with status 206, for one whose Vary
  header lists \<open>*\<close>, and for lack of room; then no entry changes. When it takes effect the
  static partition holds that response under the key, in place of what answered the
  request before; and when no other partition has a pair under that URL, a later request
  that finds no connectivity is answered with that response, an error page included.
\<close>

theorem network_first_stores_any_status:
  assumes "net e (url req) = Some s"
  shows "\<exists>r c. fst (network_first ver e req w) = Fulfilled (Some r) \<and> c \<noteq> r \<and>
             trace (snd (network_first ver e req w)) =
               trace w @ [Fetch (url req), Clone r, Open (STATIC_CACHE ver),
                          Put (STATIC_CACHE ver) (url req) c] \<and>
             deref (snd (network_first ver e req w)) r = Some \<lparr> snap = s, bodyUsed = False \<rparr> \<and>
             (put_ok e (STATIC_CACHE ver) (url req) s \<longrightarrow>
                entry (snd (network_first ver e req w)) (STATIC_CACHE ver) (url req) = Some s \<and>
                (elsewhere_absent (STATIC_CACHE ver) (request_key w (url req)) (storage w) \<and>
                 net e' (url req) = None \<longrightarrow>
                   (\<exists>r'. fst (network_first ver e' req (snd (network_first ver e req w))) =
                            Fulfilled (Some r') \<and>
                         deref (snd (network_first ver e' req (snd (network_first ver e req w)))) r' =
                            Some \<lparr> snap = s, bodyUsed = False \<rparr>))) \<and>
             (\<not> put_ok e (STATIC_CACHE ver) (url req) s \<longrightarrow>
                (\<forall>n k. entry (snd (network_first ver e req w)) n k = entry w n k))"
proof -
  let ?w1 = "snd (network_first ver e req w)"
  let ?k = "request_key w (url req)"
  have key: "request_key ?w1 = request_key w"
    using assms by (simp add: network_first_on_resolve request_key_def fun_eq_iff)
  have answer: "fst (network_first ver e req w) = Fulfilled (Some (length (objs w)))"
    and calls: "trace ?w1 =
      trace w @ [Fetch (url req), Clone (length (objs w)), Open (STATIC_CACHE ver),
                 Put (STATIC_CACHE ver) (url req) (Suc (length (objs w)))]"
    and unread: "deref ?w1 (length (objs w)) = Some \<lparr> snap = s, bodyUsed = False \<rparr>"
    using assms by (simp_all add: network_first_on_resolve deref_def nth_append)
  have stored: "entry ?w1 (STATIC_CACHE ver) (url req) = Some s"
    if "put_ok e (STATIC_CACHE ver) (url req) s"
    using assms that by (simp add: entry_def key) (simp add: network_first_on_resolve lookup_store)
  have refused: "entry ?w1 n k = entry w n k"
    if "\<not> put_ok e (STATIC_CACHE ver) (url req) s" for n k
    using assms that by (simp add: entry_def key) (simp add: network_first_on_resolve)
  have sole: "first_match (storage ?w1) ?k (headers req) = Some s"
    if ok: "put_ok e (STATIC_CACHE ver) (url req) s"
      and "elsewhere_absent (STATIC_CACHE ver) ?k (storage w)"
  proof (rule first_match_sole [where n = "STATIC_CACHE ver"])
    from ok have "\<not> List.member (vary s) ''*''"
      by (simp add: put_ok_def)
    then show "probe (storage ?w1) (STATIC_CACHE ver) ?k (headers req) = Some s"
      using assms ok by (simp add: network_first_on_resolve probe_store_same)
    show "elsewhere_absent (STATIC_CACHE ver) ?k (storage ?w1)"
      using assms ok that(2) by (simp add: network_first_on_resolve)
  qed
  have later: "\<exists>r'. fst (network_first ver e' req ?w1) = Fulfilled (Some r') \<and>
      deref (snd (network_first ver e' req ?w1)) r' = Some \<lparr> snap = s, bodyUsed = False \<rparr>"
    if "put_ok e (STATIC_CACHE ver) (url req) s"
      and "elsewhere_absent (STATIC_CACHE ver) ?k (storage w) \<and> net e' (url req) = None"
  proof -
    from that have down: "net e' (url req) = None"
      and "first_match (storage ?w1) (request_key ?w1 (url req)) (headers req) = Some s"
      using sole by (simp_all add: key)
    then show ?thesis
      by (simp add: network_first_on_reject [OF down] deref_def)
  qed
  show ?thesis
  proof (rule exI [of _ "length (objs w)"], rule exI [of _ "Suc (length (objs w))"],
      intro conjI impI allI)
    show "fst (network_first ver e req w) = Fulfilled (Some (length (objs w)))"
      by (fact answer)
    show "Suc (length (objs w)) \<noteq> length (objs w)"
      by simp
    show "trace ?w1 =
      trace w @ [Fetch (url req), Clone (length (objs w)), Open (STATIC_CACHE ver),
                 Put (STATIC_CACHE ver) (url req) (Suc (length (objs w)))]"
      by (fact calls)
    show "deref ?w1 (length (objs w)) = Some \<lparr> snap = s, bodyUsed = False \<rparr>"
      by (fact unread)
    show "entry ?w1 (STATIC_CACHE ver) (url req) = Some s"
      if "put_ok e (STATIC_CACHE ver) (url req) s"
      using that by (rule stored)
    show "\<exists>r'. fst (network_first ver e' req ?w1) = Fulfilled (Some r') \<and>
        deref (snd (network_first ver e' req ?w1)) r' = Some \<lparr> snap = s, bodyUsed = False \<rparr>"
      if "put_ok e (STATIC_CACHE ver) (url req) s"
        and "elsewhere_absent (STATIC_CACHE ver) ?k (storage w) \<and> net e' (url req) = None"
      using that by (rule later)
    show "entry ?w1 n k = entry w n k"
      if "\<not> put_ok e (STATIC_CACHE ver) (url req) s" for n k
      using that by (rule refused)
  qed
qed

theorem network_first_stores_any_status_witness:
  "net (serving page_url error_page) (url (GET page_url)) = Some error_page \<and>
   status error_page = 500 \<and>
   entry (holding (STATIC_CACHE CACHE_VERSION) page_url page) (STATIC_CACHE CACHE_VERSION)
     (url (GET page_url)) = Some page \<and>
   put_ok (serving page_url error_page) (STATIC_CACHE CACHE_VERSION) (url (GET page_url)) error_page \<and>
   elsewhere_absent (STATIC_CACHE CACHE_VERSION)
     (request_key (holding (STATIC_CACHE CACHE_VERSION) page_url page) (url (GET page_url)))
     (storage (holding (STATIC_CACHE CACHE_VERSION) page_url page)) \<and>
   net offline (url (GET page_url)) = None \<and>
   entry (snd (network_first CACHE_VERSION (serving page_url error_page) (GET page_url)
                 (holding (STATIC_CACHE CACHE_VERSION) page_url page)))
     (STATIC_CACHE CACHE_VERSION) (url (GET page_url)) = Some error_page \<and>
   (\<exists>r'. fst (network_first CACHE_VERSION offline (GET page_url)
                (snd (network_first CACHE_VERSION (serving page_url error_page) (GET page_url)
                        (holding (STATIC_CACHE CACHE_VERSION) page_url page)))) =
            Fulfilled (Some r') \<and>
         deref (snd (network_first CACHE_VERSION offline (GET page_url)
                (snd (network_first CACHE_VERSION (serving page_url error_page) (GET page_url)
                        (holding (STATIC_CACHE CACHE_VERSION) page_url page))))) r' =
            Some \<lparr> snap = error_page, bodyUsed = False \<rparr>) \<and>
   net (serving_full page_url error_page) (url (GET page_url)) = Some error_page \<and>
   \<not> put_ok (serving_full page_url error_page) (STATIC_CACHE CACHE_VERSION) (url (GET page_url))
       error_page \<and>
   entry (snd (network_first CACHE_VERSION (serving_full page_url error_page) (GET page_url)
                 (holding (STATIC_CACHE CACHE_VERSION) page_url page)))
     (STATIC_CACHE CACHE_VERSION) (url (GET page_url)) = Some page"
proof -
  let ?w = "holding (STATIC_CACHE CACHE_VERSION) page_url page"
  have up: "net (serving page_url error_page) (url (GET page_url)) = Some error_page"
    and st: "status error_page = 500"
    and good: "entry ?w (STATIC_CACHE CACHE_VERSION) (url (GET page_url)) = Some page"
    and acc: "put_ok (serving page_url error_page) (STATIC_CACHE CACHE_VERSION) (url (GET page_url))
      error_page"
    and sole: "elsewhere_absent (STATIC_CACHE CACHE_VERSION) (request_key ?w (url (GET page_url)))
      (storage ?w)"
    and down: "net offline (url (GET page_url)) = None"
    and up': "net (serving_full page_url error_page) (url (GET page_url)) = Some error_page"
    and full: "\<not> put_ok (serving_full page_url error_page) (STATIC_CACHE CACHE_VERSION)
      (url (GET page_url)) error_page"
    by (simp_all add: scenario reading)
  note main = network_first_stores_any_status [OF up, of CACHE_VERSION ?w offline]
  note main' = network_first_stores_any_status [OF up', of CACHE_VERSION ?w offline]
  have a: "entry (snd (network_first CACHE_VERSION (serving page_url error_page) (GET page_url) ?w))
     (STATIC_CACHE CACHE_VERSION) (url (GET page_url)) = Some error_page"
    using main acc by blast
  have b: "\<exists>r'. fst (network_first CACHE_VERSION offline (GET page_url)
                (snd (network_first CACHE_VERSION (serving page_url error_page) (GET page_url) ?w))) =
            Fulfilled (Some r') \<and>
         deref (snd (network_first CACHE_VERSION offline (GET page_url)
                (snd (network_first CACHE_VERSION (serving page_url error_page) (GET page_url) ?w)))) r' =
            Some \<lparr> snap = error_page, bodyUsed = False \<rparr>"
    using main acc sole down by blast
  have "entry (snd (network_first CACHE_VERSION (serving_full page_url error_page) (GET page_url) ?w))
     (STATIC_CACHE CACHE_VERSION) (url (GET page_url)) =
     entry ?w (STATIC_CACHE CACHE_VERSION) (url (GET page_url))"
    using main' full by blast
  then have c: "entry (snd (network_first CACHE_VERSION (serving_full page_url error_page)
      (GET page_url) ?w)) (STATIC_CACHE CACHE_VERSION) (url (GET page_url)) = Some page"
    by (simp only: good)
  show ?thesis
    using up st good acc sole down a b up' full c by - (assumption | rule conjI)+
qed

text \<open>
  The claim C10 as it was stated fails: a fetch that resolves with a partial response
  (status 206) is returned to the caller and is not stored, since \<open>cache.put\<close> refuses it.
\<close>

theorem partial_response_counterexample:
  "net (serving page_url partial_page) (url (GET page_url)) = Some partial_page \<and>
   fst (network_first CACHE_VERSION (serving page_url partial_page) (GET page_url) fresh) =
     Fulfilled (Some 0) \<and>
   deref (snd (network_first CACHE_VERSION (serving page_url partial_page) (GET page_url) fresh)) 0 =
     Some \<lparr> snap = partial_page, bodyUsed = False \<rparr> \<and>
   entry (snd (network_first CACHE_VERSION (serving page_url partial_page) (GET page_url) fresh))
     (STATIC_CACHE CACHE_VERSION) (url (GET page_url)) = None"
proof -
  have up: "net (serving page_url partial_page) (url (GET page_url)) = Some partial_page"
    by (simp add: scenario)
  have refused: "\<not> put_ok (serving page_url partial_page) (STATIC_CACHE CACHE_VERSION)
      (url (GET page_url)) partial_page"
    by (simp add: put_ok_def partial_page_def)
  have empty: "objs fresh = []" "storage fresh = []"
    by (simp_all add: fresh_def)
  have run: "network_first CACHE_VERSION (serving page_url partial_page) (GET page_url) fresh =
      (Fulfilled (Some 0),
       fresh\<lparr>storage := opened (STATIC_CACHE CACHE_VERSION) [],
             objs := [\<lparr> snap = partial_page, bodyUsed = False \<rparr>,
                      \<lparr> snap = partial_page, bodyUsed = False \<rparr>],
             trace := trace fresh @
               [Fetch (url (GET page_url)), Clone 0, Open (STATIC_CACHE CACHE_VERSION),
                Put (STATIC_CACHE CACHE_VERSION) (url (GET page_url)) (Suc 0)]\<rparr>)"
    by (simp add: network_first_on_resolve [OF up] refused empty)
  show ?thesis
    using up
    by (simp add: run deref_def entry_def lookup_def opened_def latest_def)
qed

subsection \<open>Activate\<close>

text \<open>
  C5. Activation settles fulfilled. Afterwards the partitions of the storage are exactly
  those that were there before and bear one of the two names of the activated version:
  every other partition is gone, and the two of the activated version keep every entry
  they had. In particular, after activation under the version tag v2 there is no
  partition with a name of version v1.
\<close>

theorem activate_version_isolation:
  "(\<exists>bs. fst (activate ver w) = Fulfilled bs) \<and>
   (\<forall>n. n \<in> fst ` set (storage (snd (activate ver w))) \<longleftrightarrow>
        n \<in> fst ` set (storage w) \<and> (n = STATIC_CACHE ver \<or> n = CDN_CACHE ver)) \<and>
   (\<forall>n k. n = STATIC_CACHE ver \<or> n = CDN_CACHE ver \<longrightarrow>
        entry (snd (activate ver w)) n k = entry w n k) \<and>
   STATIC_CACHE ''v1'' \<notin> fst ` set (storage (snd (activate ''v2'' w))) \<and>
   CDN_CACHE ''v1'' \<notin> fst ` set (storage (snd (activate ''v2'' w)))"
proof -
  have settles: "\<exists>bs. fst (activate ver w) = Fulfilled bs"
    using promise_all_deletes [of _ "issue Keys w"]
    by (simp add: activate_def caches_keys_def)
  show ?thesis
    using settles
    by (auto simp: storage_activate base_activate entry_def request_key_def lookup_filter_names
        STATIC_CACHE_def CDN_CACHE_def)
qed

theorem activate_version_isolation_witness:
  "STATIC_CACHE ''v1'' \<in> fst ` set (storage before_activation) \<and>
   CDN_CACHE ''v1'' \<in> fst ` set (storage before_activation) \<and>
   entry before_activation (STATIC_CACHE ''v2'') page_url = Some page \<and>
   STATIC_CACHE ''v1'' \<notin> fst ` set (storage (snd (activate ''v2'' before_activation))) \<and>
   CDN_CACHE ''v1'' \<notin> fst ` set (storage (snd (activate ''v2'' before_activation))) \<and>
   STATIC_CACHE ''v2'' \<in> fst ` set (storage (snd (activate ''v2'' before_activation))) \<and>
   CDN_CACHE ''v2'' \<in> fst ` set (storage (snd (activate ''v2'' before_activation))) \<and>
   entry (snd (activate ''v2'' before_activation)) (STATIC_CACHE ''v2'') page_url = Some page"
proof -
  have old: "STATIC_CACHE ''v1'' \<in> fst ` set (storage before_activation)"
      "CDN_CACHE ''v1'' \<in> fst ` set (storage before_activation)"
    and new: "STATIC_CACHE ''v2'' \<in> fst ` set (storage before_activation)"
      "CDN_CACHE ''v2'' \<in> fst ` set (storage before_activation)"
    by (simp_all add: before_activation_def)
  have held: "entry before_activation (STATIC_CACHE ''v2'') page_url = Some page"
    by (simp add: scenario reading STATIC_CACHE_def CDN_CACHE_def)
  note main = activate_version_isolation [of "''v2''" before_activation]
  have gone: "STATIC_CACHE ''v1'' \<notin> fst ` set (storage (snd (activate ''v2'' before_activation)))"
      "CDN_CACHE ''v1'' \<notin> fst ` set (storage (snd (activate ''v2'' before_activation)))"
    using main by blast+
  have stay: "STATIC_CACHE ''v2'' \<in> fst ` set (storage (snd (activate ''v2'' before_activation)))"
      "CDN_CACHE ''v2'' \<in> fst ` set (storage (snd (activate ''v2'' before_activation)))"
    using main new by blast+
  have "entry (snd (activate ''v2'' before_activation)) (STATIC_CACHE ''v2'') page_url =
      entry before_activation (STATIC_CACHE ''v2'') page_url"
    using main by blast
  then have same: "entry (snd (activate ''v2'' before_activation)) (STATIC_CACHE ''v2'') page_url =
      Some page"
    by (simp only: held)
  show ?thesis
    using old held gone stay same by - (assumption | rule conjI)+
qed

subsection \<open>Install\<close>

text \<open>
  C6, as amended. Install settles fulfilled whatever the fetches and the stores do. For
  each listed URL, the entry of its partition after install is the fetched response when
  the fetch of that URL resolved with an OK response and the host accepted the store,
  and otherwise the entry the partition had before install (none, when the partition was
  new or did not hold the URL): a URL whose fetch failed or was not OK is skipped, it is
  not removed. The entry of a listed URL depends on the fetch of that URL alone, so a
  failure for one URL takes nothing from the others.
\<close>

theorem install_resilience:
  "fst (install ver e w) = Fulfilled [(), ()] \<and>
   (\<forall>u \<in> set STATIC_ASSETS.
      entry (snd (install ver e w)) (STATIC_CACHE ver) u =
        (case net e u of
           None \<Rightarrow> entry w (STATIC_CACHE ver) u
         | Some s \<Rightarrow>
             if ok s \<and> put_ok e (STATIC_CACHE ver) u s then Some s
             else entry w (STATIC_CACHE ver) u)) \<and>
   (\<forall>u \<in> set CDN_PREFETCH.
      entry (snd (install ver e w)) (CDN_CACHE ver) u =
        (case net e u of
           None \<Rightarrow> entry w (CDN_CACHE ver) u
         | Some s \<Rightarrow>
             if ok s \<and> put_ok e (CDN_CACHE ver) u s then Some s
             else entry w (CDN_CACHE ver) u))"
proof -
  note eff = install_effect [of ver e w]
  have settled: "fst (install ver e w) = Fulfilled [(), ()]"
    using eff by (rule conjunct1)
  have static: "entry (snd (install ver e w)) (STATIC_CACHE ver) u =
        (case net e u of
           None \<Rightarrow> entry w (STATIC_CACHE ver) u
         | Some s \<Rightarrow>
             if ok s \<and> put_ok e (STATIC_CACHE ver) u s then Some s
             else entry w (STATIC_CACHE ver) u)" if "u \<in> set STATIC_ASSETS" for u
  proof -
    from eff that have "entry (snd (install ver e w)) (STATIC_CACHE ver) u =
        (if kept e (STATIC_CACHE ver) u then net e u else entry w (STATIC_CACHE ver) u)"
      by blast
    then show ?thesis
      by (simp add: kept_def split: option.splits)
  qed
  have cdn: "entry (snd (install ver e w)) (CDN_CACHE ver) u =
        (case net e u of
           None \<Rightarrow> entry w (CDN_CACHE ver) u
         | Some s \<Rightarrow>
             if ok s \<and> put_ok e (CDN_CACHE ver) u s then Some s
             else entry w (CDN_CACHE ver) u)" if "u \<in> set CDN_PREFETCH" for u
  proof -
    from eff that have "entry (snd (install ver e w)) (CDN_CACHE ver) u =
        (if kept e (CDN_CACHE ver) u then net e u else entry w (CDN_CACHE ver) u)"
      by blast
    then show ?thesis
      by (simp add: kept_def split: option.splits)
  qed
  show ?thesis
    using settled static cdn by blast
qed

theorem install_resilience_witness:
  "fst (install CACHE_VERSION partly_reachable fresh) = Fulfilled [(), ()] \<and>
   ''./artemis.html'' \<in> set STATIC_ASSETS \<and>
   net partly_reachable ''./artemis.html'' = None \<and>
   entry (snd (install CACHE_VERSION partly_reachable fresh)) (STATIC_CACHE CACHE_VERSION)
     ''./artemis.html'' = None \<and>
   ''./artemis_ja.html'' \<in> set STATIC_ASSETS \<and>
   net partly_reachable ''./artemis_ja.html'' = Some page \<and> ok page \<and>
   entry (snd (install CACHE_VERSION partly_reachable fresh)) (STATIC_CACHE CACHE_VERSION)
     ''./artemis_ja.html'' = Some page \<and>
   script_url \<in> set CDN_PREFETCH \<and>
   net partly_reachable script_url = Some not_found \<and> \<not> ok not_found \<and>
   entry (snd (install CACHE_VERSION partly_reachable fresh)) (CDN_CACHE CACHE_VERSION)
     script_url = None"
proof -
  note main = install_resilience [of CACHE_VERSION partly_reachable fresh]
  have listed: "''./artemis.html'' \<in> set STATIC_ASSETS" "''./artemis_ja.html'' \<in> set STATIC_ASSETS"
    "script_url \<in> set CDN_PREFETCH"
    by (simp_all add: STATIC_ASSETS_def CDN_PREFETCH_def script_url_def)
  have nets: "net partly_reachable ''./artemis.html'' = None"
    "net partly_reachable ''./artemis_ja.html'' = Some page"
    "net partly_reachable script_url = Some not_found"
    by (simp_all add: partly_reachable_def script_url_def page_def)
  have oks: "ok page" "\<not> ok not_found"
    "put_ok partly_reachable (STATIC_CACHE CACHE_VERSION) ''./artemis_ja.html'' page"
    by (simp_all add: scenario reading)
  have before: "entry fresh n k = None" for n k
    by (simp add: entry_def lookup_def fresh_def)
  have settled: "fst (install CACHE_VERSION partly_reachable fresh) = Fulfilled [(), ()]"
    using main by (rule conjunct1)
  have "entry (snd (install CACHE_VERSION partly_reachable fresh)) (STATIC_CACHE CACHE_VERSION)
     ''./artemis.html'' =
      (case net partly_reachable ''./artemis.html'' of
         None \<Rightarrow> entry fresh (STATIC_CACHE CACHE_VERSION) ''./artemis.html''
       | Some s \<Rightarrow>
           if ok s \<and> put_ok partly_reachable (STATIC_CACHE CACHE_VERSION) ''./artemis.html'' s
           then Some s else entry fresh (STATIC_CACHE CACHE_VERSION) ''./artemis.html'')"
    using main listed(1) by blast
  then have a: "entry (snd (install CACHE_VERSION partly_reachable fresh))
      (STATIC_CACHE CACHE_VERSION) ''./artemis.html'' = None"
    by (simp add: nets before)
  have "entry (snd (install CACHE_VERSION partly_reachable fresh)) (STATIC_CACHE CACHE_VERSION)
     ''./artemis_ja.html'' =
      (case net partly_reachable ''./artemis_ja.html'' of
         None \<Rightarrow> entry fresh (STATIC_CACHE CACHE_VERSION) ''./artemis_ja.html''
       | Some s \<Rightarrow>
           if ok s \<and> put_ok partly_reachable (STATIC_CACHE CACHE_VERSION) ''./artemis_ja.html'' s
           then Some s else entry fresh (STATIC_CACHE CACHE_VERSION) ''./artemis_ja.html'')"
    using main listed(2) by blast
  then have b: "entry (snd (install CACHE_VERSION partly_reachable fresh))
      (STATIC_CACHE CACHE_VERSION) ''./artemis_ja.html'' = Some page"
    by (simp add: nets oks)
  have "entry (snd (install CACHE_VERSION partly_reachable fresh)) (CDN_CACHE CACHE_VERSION)
     script_url =
      (case net partly_reachable script_url of
         None \<Rightarrow> entry fresh (CDN_CACHE CACHE_VERSION) script_url
       | Some s \<Rightarrow>
           if ok s \<and> put_ok partly_reachable (CDN_CACHE CACHE_VERSION) script_url s
           then Some s else entry fresh (CDN_CACHE CACHE_VERSION) script_url)"
    using main listed(3) by blast
  then have c: "entry (snd (install CACHE_VERSION partly_reachable fresh))
      (CDN_CACHE CACHE_VERSION) script_url = None"
    by (simp add: nets oks before)
  show ?thesis
    using settled listed nets oks(1,2) a b c by - (assumption | rule conjI)+
qed

text \<open>
  The claim C6 as it was stated fails: a listed URL whose fetch failed is present after
  install when the partition held it before, as it does when the worker is installed
  again under the same version tag.
\<close>

theorem install_skipped_url_counterexample:
  "''./artemis.html'' \<in> set STATIC_ASSETS \<and>
   net offline ''./artemis.html'' = None \<and>
   fst (install CACHE_VERSION offline
          (holding (STATIC_CACHE CACHE_VERSION) ''./artemis.html'' page)) = Fulfilled [(), ()] \<and>
   entry (snd (install CACHE_VERSION offline
                 (holding (STATIC_CACHE CACHE_VERSION) ''./artemis.html'' page)))
     (STATIC_CACHE CACHE_VERSION) ''./artemis.html'' = Some page"
proof -
  let ?w = "holding (STATIC_CACHE CACHE_VERSION) ''./artemis.html'' page"
  have down: "kept offline n u = False" for n u
    by (simp add: kept_def offline_def)
  have before: "entry ?w (STATIC_CACHE CACHE_VERSION) ''./artemis.html'' = Some page"
    by (simp add: scenario reading)
  have listed: "''./artemis.html'' \<in> set STATIC_ASSETS"
    by (simp add: STATIC_ASSETS_def)
  have unreachable: "net offline ''./artemis.html'' = None"
    by (simp add: offline_def)
  note eff = install_effect [of CACHE_VERSION offline ?w]
  have settled: "fst (install CACHE_VERSION offline ?w) = Fulfilled [(), ()]"
    using eff by (rule conjunct1)
  from eff listed have "entry (snd (install CACHE_VERSION offline ?w)) (STATIC_CACHE CACHE_VERSION)
      ''./artemis.html'' =
      (if kept offline (STATIC_CACHE CACHE_VERSION) ''./artemis.html'' then net offline ''./artemis.html''
       else entry ?w (STATIC_CACHE CACHE_VERSION) ''./artemis.html'')"
    by blast
  then have still: "entry (snd (install CACHE_VERSION offline ?w)) (STATIC_CACHE CACHE_VERSION)
      ''./artemis.html'' = Some page"
    by (simp add: down before)
  show ?thesis
    using listed unreachable settled still by - (assumption | rule conjI)+
qed

subsection \<open>The huggingface hosts\<close>

text \<open>
  C9. huggingface.co and cdn-lfs.huggingface.co are on the cache-first allow-list, and no
  URL of the third-party prefetch list has either of them as its hostname. So install
  leaves the entry of every key with such a hostname in the third-party partition as it
  was, and such an entry comes into the partition at fetch time: a GET request to one of
  the two hosts, for a path that does not end in ".html", that misses the partition and
  is answered with status 200 is stored there (when the host accepts the store). The
  network-first strategy writes nothing into the third-party partition.
\<close>

theorem huggingface_lazy:
  "isCacheable ''huggingface.co'' \<and> isCacheable ''cdn-lfs.huggingface.co'' \<and>
   (\<forall>u \<in> set CDN_PREFETCH.
      hostname (new_URL u) \<noteq> ''huggingface.co'' \<and>
      hostname (new_URL u) \<noteq> ''cdn-lfs.huggingface.co'') \<and>
   (\<forall>k. hostname (new_URL k) = ''huggingface.co'' \<or>
        hostname (new_URL k) = ''cdn-lfs.huggingface.co'' \<longrightarrow>
        entry (snd (install ver e w)) (CDN_CACHE ver) k = entry w (CDN_CACHE ver) k) \<and>
   (\<forall>req k. entry (snd (network_first ver e req w)) (CDN_CACHE ver) k = entry w (CDN_CACHE ver) k) \<and>
   (\<forall>req s.
      req_method req = ''GET'' \<and>
      (hostname (new_URL (url req)) = ''huggingface.co'' \<or>
       hostname (new_URL (url req)) = ''cdn-lfs.huggingface.co'') \<and>
      \<not> endsWith (pathname (new_URL (url req))) ''.html'' \<and>
      entry w (CDN_CACHE ver) (url req) = None \<and>
      net e (url req) = Some s \<and> status s = 200 \<and>
      put_ok e (CDN_CACHE ver) (url req) s \<longrightarrow>
      entry (snd (fetch_handler ver e req w)) (CDN_CACHE ver) (url req) = Some s)"
proof -
  have listed: "isCacheable ''huggingface.co''" "isCacheable ''cdn-lfs.huggingface.co''"
    by (simp_all add: isCacheable_def)
  have hosts: "\<forall>u \<in> set CDN_PREFETCH.
      hostname (new_URL u) \<noteq> ''huggingface.co'' \<and>
      hostname (new_URL u) \<noteq> ''cdn-lfs.huggingface.co''"
    by (simp add: CDN_PREFETCH_def new_URL_def path_start_def path_end_def)
  have untouched: "entry (snd (install ver e w)) (CDN_CACHE ver) k = entry w (CDN_CACHE ver) k"
    if host: "hostname (new_URL k) = ''huggingface.co'' \<or>
        hostname (new_URL k) = ''cdn-lfs.huggingface.co''" for k
  proof -
    from host have "after_scheme k \<noteq> []"
      by (auto simp: new_URL_def)
    then have key: "request_key w k = takeWhile (\<lambda>c. c \<noteq> CHR ''#'') k"
      by (simp add: request_key_def resolve_def drop_fragment_def)
    have "request_key w k \<notin> set CDN_PREFETCH"
    proof
      assume "request_key w k \<in> set CDN_PREFETCH"
      moreover have "k = request_key w k @ dropWhile (\<lambda>c. c \<noteq> CHR ''#'') k"
        by (simp add: key)
      ultimately obtain u where "u \<in> set CDN_PREFETCH" "k = u @ dropWhile (\<lambda>c. c \<noteq> CHR ''#'') k"
        by blast
      then have "hostname (new_URL k) \<noteq> ''huggingface.co'' \<and>
          hostname (new_URL k) \<noteq> ''cdn-lfs.huggingface.co''"
        using prefetch_hosts [of "dropWhile (\<lambda>c. c \<noteq> CHR ''#'') k"] by metis
      with host show False
        by blast
    qed
    moreover have "base (snd (install ver e w)) = base w"
      using install_effect [of ver e w] by blast
    ultimately show ?thesis
      using install_effect [of ver e w] by (simp add: entry_def request_key_def)
  qed
  have lazily: "entry (snd (fetch_handler ver e req w)) (CDN_CACHE ver) (url req) = Some s"
    if "req_method req = ''GET''"
      and "hostname (new_URL (url req)) = ''huggingface.co'' \<or>
           hostname (new_URL (url req)) = ''cdn-lfs.huggingface.co''"
      and "\<not> endsWith (pathname (new_URL (url req))) ''.html''"
      and "entry w (CDN_CACHE ver) (url req) = None"
      and "net e (url req) = Some s" and "status s = 200"
      and "put_ok e (CDN_CACHE ver) (url req) s" for req s
  proof -
    from that(2) have "isCacheable (hostname (new_URL (url req)))"
      using listed by auto
    with that(1,3) have "snd (fetch_handler ver e req w) = snd (cache_first ver e req w)"
      by (simp add: fetch_handler_def case_prod_beta)
    moreover from that(4) have miss:
      "probe (storage w) (CDN_CACHE ver) (request_key w (url req)) (headers req) = None"
      by (rule miss_of_entry)
    ultimately show ?thesis
      using that(7)
      by (simp add: cache_first_on_200 [OF miss that(5,6)] entry_def request_key_def lookup_store)
  qed
  show ?thesis
    using listed hosts untouched lazily network_first_keeps_cdn by blast
qed

theorem huggingface_lazy_witness:
  "hostname (new_URL model_url) = ''huggingface.co'' \<and>
   req_method (GET model_url) = ''GET'' \<and>
   \<not> endsWith (pathname (new_URL (url (GET model_url)))) ''.html'' \<and>
   entry fresh (CDN_CACHE CACHE_VERSION) (url (GET model_url)) = None \<and>
   net (serving model_url script) (url (GET model_url)) = Some script \<and>
   status script = 200 \<and>
   put_ok (serving model_url script) (CDN_CACHE CACHE_VERSION) (url (GET model_url)) script \<and>
   entry (snd (install CACHE_VERSION (serving model_url script) fresh)) (CDN_CACHE CACHE_VERSION)
     model_url = entry fresh (CDN_CACHE CACHE_VERSION) model_url \<and>
   entry (snd (fetch_handler CACHE_VERSION (serving model_url script) (GET model_url) fresh))
     (CDN_CACHE CACHE_VERSION) (url (GET model_url)) = Some script"
proof -
  note main = huggingface_lazy [of CACHE_VERSION "serving model_url script" fresh]
  have host: "hostname (new_URL model_url) = ''huggingface.co''"
    and host': "hostname (new_URL (url (GET model_url))) = ''huggingface.co''"
    and get: "req_method (GET model_url) = ''GET''"
    and path: "\<not> endsWith (pathname (new_URL (url (GET model_url)))) ''.html''"
    by (simp_all add: GET_def model_url_def new_URL_def path_start_def path_end_def endsWith_def)
  have miss: "entry fresh (CDN_CACHE CACHE_VERSION) (url (GET model_url)) = None"
    and up: "net (serving model_url script) (url (GET model_url)) = Some script"
    and st: "status script = 200"
    and acc: "put_ok (serving model_url script) (CDN_CACHE CACHE_VERSION) (url (GET model_url)) script"
    by (simp_all add: scenario reading)
  have a: "entry (snd (install CACHE_VERSION (serving model_url script) fresh))
      (CDN_CACHE CACHE_VERSION) model_url = entry fresh (CDN_CACHE CACHE_VERSION) model_url"
    using main host by blast
  have b: "entry (snd (fetch_handler CACHE_VERSION (serving model_url script) (GET model_url) fresh))
     (CDN_CACHE CACHE_VERSION) (url (GET model_url)) = Some script"
    using main get host' path miss up st acc by blast
  show ?thesis
    using host get path miss up st acc a b by - (assumption | rule conjI)+
qed

end
